theory Spec2Isabelle
  imports
    Complex_Main
    "HOL-Library.Sublist"
    "HOL-Library.Product_Lexorder"
    "HOL-Library.Multiset"
begin

section \<open>JavaScript strings\<close>

text \<open>
  Strings are \<^typ>\<open>string\<close>, one \<^typ>\<open>char\<close> per code unit: the model holds the
  strings whose code units are below 256, the first 256 characters of Unicode. On these,
  \<^verbatim>\<open>toLowerCase\<close> works code unit by code unit and changes the letters
  \<^verbatim>\<open>A\<close> to \<^verbatim>\<open>Z\<close> and the letters from U+00C0 to U+00DE, the
  multiplication sign U+00D7 apart, each to the code unit 32 above it.
\<close>

definition upperCaseChars :: string where
  "upperCaseChars =
     ''ABCDEFGHIJKLMNOPQRSTUVWXYZ''
     @ [CHR 0xC0, CHR 0xC1, CHR 0xC2, CHR 0xC3, CHR 0xC4, CHR 0xC5, CHR 0xC6, CHR 0xC7,
        CHR 0xC8, CHR 0xC9, CHR 0xCA, CHR 0xCB, CHR 0xCC, CHR 0xCD, CHR 0xCE, CHR 0xCF,
        CHR 0xD0, CHR 0xD1, CHR 0xD2, CHR 0xD3, CHR 0xD4, CHR 0xD5, CHR 0xD6,
        CHR 0xD8, CHR 0xD9, CHR 0xDA, CHR 0xDB, CHR 0xDC, CHR 0xDD, CHR 0xDE]"

definition lowerCaseChars :: string where
  "lowerCaseChars =
     ''abcdefghijklmnopqrstuvwxyz''
     @ [CHR 0xE0, CHR 0xE1, CHR 0xE2, CHR 0xE3, CHR 0xE4, CHR 0xE5, CHR 0xE6, CHR 0xE7,
        CHR 0xE8, CHR 0xE9, CHR 0xEA, CHR 0xEB, CHR 0xEC, CHR 0xED, CHR 0xEE, CHR 0xEF,
        CHR 0xF0, CHR 0xF1, CHR 0xF2, CHR 0xF3, CHR 0xF4, CHR 0xF5, CHR 0xF6,
        CHR 0xF8, CHR 0xF9, CHR 0xFA, CHR 0xFB, CHR 0xFC, CHR 0xFD, CHR 0xFE]"

definition toLowerChar :: "char \<Rightarrow> char" where
  "toLowerChar c =
     (case map_of (zip upperCaseChars lowerCaseChars) c of
        Some l \<Rightarrow> l
      | None \<Rightarrow> c)"

definition toLowerCase :: "string \<Rightarrow> string" where
  "toLowerCase s = map toLowerChar s"

text \<open>
  The class \<^verbatim>\<open>\s\<close> of a regular expression, which is also what \<^verbatim>\<open>trim\<close>
  strips: the space, the tabulators, the line feed, the form feed, the carriage return and
  the no-break space U+00A0.
\<close>

definition isSpace :: "char \<Rightarrow> bool" where
  "isSpace c =
     (c \<in> set [CHR 0x20, CHR 0x09, CHR 0x0A, CHR 0x0B, CHR 0x0C, CHR 0x0D, CHR 0xA0])"

text \<open>
  The class \<^verbatim>\<open>\w\<close>, which decides where \<^verbatim>\<open>\b\<close> holds: the letters of
  ASCII, the digits and the underscore, and no character beyond ASCII.
\<close>

definition isWordChar :: "char \<Rightarrow> bool" where
  "isWordChar c =
     (c \<in> set ''abcdefghijklmnopqrstuvwxyzABCDEFGHIJKLMNOPQRSTUVWXYZ0123456789_'')"

text \<open>The class \<^verbatim>\<open>[.!?]\<close> that ends a sentence on the server.\<close>

definition isTerminator :: "char \<Rightarrow> bool" where
  "isTerminator c = (c \<in> set ''.!?'')"

text \<open>The class \<^verbatim>\<open>[?.,!]\<close> that the client deletes from a query.\<close>

definition isPunctuation :: "char \<Rightarrow> bool" where
  "isPunctuation c = (c \<in> set ''?.,!'')"

definition trim :: "string \<Rightarrow> string" where
  "trim s = rev (dropWhile isSpace (rev (dropWhile isSpace s)))"

text \<open>\<^verbatim>\<open>s.substring(0, n)\<close>.\<close>

definition substring0 :: "string \<Rightarrow> nat \<Rightarrow> string" where
  "substring0 s n = take n s"

text \<open>\<^verbatim>\<open>s.includes(sub)\<close>: \<open>sub\<close> occurs in \<open>s\<close> as a contiguous run.\<close>

fun includesStr :: "string \<Rightarrow> string \<Rightarrow> bool" where
  "includesStr [] sub = (sub = [])"
| "includesStr (c # cs) sub = (prefix sub (c # cs) \<or> includesStr cs sub)"

text \<open>
  \<^verbatim>\<open>s.split(/[class]+/)\<close>: the pieces between the maximal runs of characters of the
  class. A run at the start or at the end leaves an empty piece there, and the empty string
  gives one empty piece. \<open>cur\<close> is the piece being read.
\<close>

function splitRuns :: "(char \<Rightarrow> bool) \<Rightarrow> string \<Rightarrow> string \<Rightarrow> string list" where
  "splitRuns P cur [] = [cur]"
| "splitRuns P cur (c # cs) =
     (if P c then cur # splitRuns P [] (dropWhile P cs)
      else splitRuns P (cur @ [c]) cs)"
  by pat_completeness auto
termination
  by (relation "measure (\<lambda>(P, cur, s). length s)")
     (auto simp: length_dropWhile_le less_Suc_eq_le)

text \<open>\<^verbatim>\<open>s.split(sep)\<close> for a separator of one character: every occurrence splits.\<close>

fun splitChar :: "char \<Rightarrow> string \<Rightarrow> string \<Rightarrow> string list" where
  "splitChar sep cur [] = [cur]"
| "splitChar sep cur (c # cs) =
     (if c = sep then cur # splitChar sep [] cs
      else splitChar sep (cur @ [c]) cs)"

section \<open>The document stores\<close>

text \<open>
  A document as both stores hold it; the server adds the name and the path of the uploaded
  file. The server's ids are numbers, the client's are strings.
\<close>

record 'i document =
  doc_id :: 'i
  doc_name :: string
  doc_content :: string
  doc_size :: nat
  doc_uploadedAt :: nat

record server_document = "int document" +
  doc_filename :: string
  doc_path :: string

subsection \<open>Server: \<^verbatim>\<open>uploadedDocuments\<close> and its routes\<close>

text \<open>
  The state of the server process: the global array, whether the constructor of the model
  client succeeded (\<^verbatim>\<open>openai\<close> is defined), and the paths of the files in the upload
  directory.
\<close>

record server =
  uploadedDocuments :: "server_document list"
  openai :: bool
  disk :: "string list"

text \<open>\<^verbatim>\<open>req.file\<close>, as the upload middleware leaves it.\<close>

record req_file =
  file_originalname :: string
  file_filename :: string
  file_path :: string
  file_size :: nat

record source =
  document :: string
  excerpt :: string

record answer_result =
  answer :: string
  sources :: "source list"

record ask_result = answer_result +
  question_echo :: string
  confidence :: rat
  method_tag :: string

datatype body =
    ErrorBody string
  | MessageBody string
  | UploadBody string server_document
  | AskBody ask_result

text \<open>
  What a handler does with a request: it sends a status and a JSON body, or an exception
  leaves it.
\<close>

datatype response = Response nat body | Uncaught

text \<open>
  \<^verbatim>\<open>POST /api/upload\<close>. \<open>fileContent\<close> is what \<^verbatim>\<open>fs.readFileSync\<close>
  returns, \<open>None\<close> when it throws; \<open>now\<close> is the clock.
\<close>

definition upload :: "server \<Rightarrow> req_file option \<Rightarrow> string option \<Rightarrow> nat \<Rightarrow> server \<times> response" where
  "upload st file fileContent now =
     (case file of
        None \<Rightarrow> (st, Response 400 (ErrorBody ''No file uploaded''))
      | Some f \<Rightarrow>
          (case fileContent of
             None \<Rightarrow> (st, Uncaught)
           | Some text \<Rightarrow>
               let doc = \<lparr> doc_id = int (length (uploadedDocuments st)) + 1,
                           doc_name = file_originalname f,
                           doc_content = text,
                           doc_size = file_size f,
                           doc_uploadedAt = now,
                           doc_filename = file_filename f,
                           doc_path = file_path f \<rparr>
               in (st \<lparr> uploadedDocuments := uploadedDocuments st @ [doc] \<rparr>,
                   Response 200 (UploadBody ''File uploaded successfully'' doc))))"

text \<open>\<^verbatim>\<open>xs.findIndex(p)\<close>, with \<open>None\<close> for \<open>-1\<close>.\<close>

fun findIndex :: "('a \<Rightarrow> bool) \<Rightarrow> 'a list \<Rightarrow> nat option" where
  "findIndex p [] = None"
| "findIndex p (x # xs) =
     (if p x then Some 0 else map_option Suc (findIndex p xs))"

text \<open>
  \<^verbatim>\<open>DELETE /api/documents/:id\<close>. \<open>docId\<close> is the value of \<^verbatim>\<open>parseInt\<close> on the
  parameter, \<open>None\<close> for \<^verbatim>\<open>NaN\<close>, which is equal to no id. \<open>unlinkThrows\<close> says
  whether removing the file fails; the handler catches that and goes on.
\<close>

definition deleteDocument :: "server \<Rightarrow> int option \<Rightarrow> bool \<Rightarrow> server \<times> response" where
  "deleteDocument st docId unlinkThrows =
     (case findIndex (\<lambda>doc. Some (doc_id doc) = docId) (uploadedDocuments st) of
        None \<Rightarrow> (st, Response 404 (ErrorBody ''Document not found''))
      | Some docIndex \<Rightarrow>
          let deletedDoc = uploadedDocuments st ! docIndex;
              remaining = take docIndex (uploadedDocuments st)
                          @ drop (Suc docIndex) (uploadedDocuments st);
              disk' = (if doc_path deletedDoc \<in> set (disk st) \<and> \<not> unlinkThrows
                       then removeAll (doc_path deletedDoc) (disk st)
                       else disk st)
          in (st \<lparr> uploadedDocuments := remaining, disk := disk' \<rparr>,
              Response 200 (MessageBody ''Document deleted successfully'')))"

text \<open>A run of the server over uploads and deletions, each with what the environment gives it.\<close>

datatype request =
    Upload "req_file option" "string option" nat
  | Delete "int option" bool

text \<open>The upload middleware writes the file to the upload directory before the handler runs.\<close>

definition storeFile :: "server \<Rightarrow> req_file option \<Rightarrow> server" where
  "storeFile st file =
     (case file of None \<Rightarrow> st | Some f \<Rightarrow> st \<lparr> disk := file_path f # disk st \<rparr>)"

fun handle :: "server \<Rightarrow> request \<Rightarrow> server" where
  "handle st (Upload file fileContent now) =
     fst (upload (storeFile st file) file fileContent now)"
| "handle st (Delete docId unlinkThrows) = fst (deleteDocument st docId unlinkThrows)"

definition run :: "server \<Rightarrow> request list \<Rightarrow> server" where
  "run st reqs = foldl handle st reqs"

text \<open>The server as it starts: no document.\<close>

definition startServer :: "bool \<Rightarrow> server" where
  "startServer hasClient = \<lparr> uploadedDocuments = [], openai = hasClient, disk = [] \<rparr>"

definition textFile :: "string \<Rightarrow> req_file" where
  "textFile n = \<lparr> file_originalname = n, file_filename = ''file-'' @ n,
                  file_path = ''uploads/file-'' @ n, file_size = 5 \<rparr>"

subsection \<open>Client: the list in the component's state and in local storage\<close>

text \<open>
  \<open>c_storage\<close> is the list saved under \<^verbatim>\<open>qa_app_documents\<close>, \<open>None\<close> while nothing
  is saved. Writing to local storage is taken to succeed.
\<close>

record client =
  c_uploadedDocuments :: "string document list"
  c_storage :: "string document list option"

text \<open>\<open>confirmed\<close> is the answer of \<^verbatim>\<open>window.confirm\<close>.\<close>

definition handleDeleteDocument :: "client \<Rightarrow> bool \<Rightarrow> string \<Rightarrow> client" where
  "handleDeleteDocument st confirmed docId =
     (if confirmed then
        let updatedDocs = filter (\<lambda>doc. doc_id doc \<noteq> docId) (c_uploadedDocuments st)
        in st \<lparr> c_uploadedDocuments := updatedDocs, c_storage := Some updatedDocs \<rparr>
      else st)"

section \<open>Sorting with a comparator\<close>

text \<open>
  \<^verbatim>\<open>xs.sort(cmp)\<close>. The sort of the language is stable: \<open>a\<close> stays before a later
  \<open>b\<close> unless \<open>cmp a b\<close> is positive. Insertion from the right computes that order.
\<close>

fun insertBy :: "('a \<Rightarrow> 'a \<Rightarrow> int) \<Rightarrow> 'a \<Rightarrow> 'a list \<Rightarrow> 'a list" where
  "insertBy cmp x [] = [x]"
| "insertBy cmp x (y # ys) =
     (if cmp x y \<le> 0 then x # y # ys else y # insertBy cmp x ys)"

definition sortBy :: "('a \<Rightarrow> 'a \<Rightarrow> int) \<Rightarrow> 'a list \<Rightarrow> 'a list" where
  "sortBy cmp xs = foldr (insertBy cmp) xs []"

section \<open>The keyword search of the server: \<^verbatim>\<open>getAnswerFromDocuments\<close>\<close>

record match =
  m_document :: string
  m_excerpt :: string
  m_score :: nat
  m_matchCount :: nat

record fallback_result = answer_result +
  primaryDocument :: "string option"

definition questionWords :: "string \<Rightarrow> string list" where
  "questionWords question =
     filter (\<lambda>w. length w > 2) (splitRuns isSpace [] (toLowerCase question))"

definition questionPhrase :: "string \<Rightarrow> string" where
  "questionPhrase question =
     substring0 (toLowerCase question) (min 15 (length (toLowerCase question)))"

definition sentencesOf :: "string \<Rightarrow> string list" where
  "sentencesOf content =
     filter (\<lambda>s. length s > 20) (map trim (splitRuns isTerminator [] content))"

text \<open>The score and the match count of one sentence, in the order the code adds them up.\<close>

definition scoreSentence :: "string \<Rightarrow> string \<Rightarrow> nat \<times> nat" where
  "scoreSentence question sentence =
     (let sentenceLower = toLowerCase sentence;
          (score, matchCount) =
            foldl (\<lambda>(score, matchCount) word.
                     if includesStr sentenceLower word then (score + 3, matchCount + 1)
                     else (score, matchCount))
                  (0, 0) (questionWords question);
          score = (if includesStr sentenceLower (questionPhrase question)
                   then score + 10 else score);
          score = (if matchCount > 0 then score + matchCount * 2 else score)
      in (score, matchCount))"

definition matchOf :: "('i, 'm) document_scheme \<Rightarrow> string \<Rightarrow> nat \<times> nat \<Rightarrow> match" where
  "matchOf doc sentence sc =
     \<lparr> m_document = doc_name doc, m_excerpt = substring0 (trim sentence) 300,
       m_score = fst sc, m_matchCount = snd sc \<rparr>"

text \<open>The body of the two loops: what one document pushes onto \<^verbatim>\<open>allMatches\<close>.\<close>

definition matchesOfDocument :: "string \<Rightarrow> ('i, 'm) document_scheme \<Rightarrow> match list" where
  "matchesOfDocument question doc =
     concat (map (\<lambda>sentence.
                    let sc = scoreSentence question sentence
                    in if fst sc > 0 then [matchOf doc sentence sc] else [])
                 (sentencesOf (doc_content doc)))"

definition collectMatches :: "string \<Rightarrow> ('i, 'm) document_scheme list \<Rightarrow> match list" where
  "collectMatches question documents = concat (map (matchesOfDocument question) documents)"

definition compareMatches :: "match \<Rightarrow> match \<Rightarrow> int" where
  "compareMatches a b =
     (if m_score b \<noteq> m_score a then int (m_score b) - int (m_score a)
      else int (m_matchCount b) - int (m_matchCount a))"

definition rankedMatches :: "string \<Rightarrow> ('i, 'm) document_scheme list \<Rightarrow> match list" where
  "rankedMatches question documents = sortBy compareMatches (collectMatches question documents)"

definition notFoundOnServer :: string where
  "notFoundOnServer =
     ''I couldn't find specific information about your question in the uploaded documents.''"

definition sourceOfMatch :: "match \<Rightarrow> source" where
  "sourceOfMatch m = \<lparr> document = m_document m, excerpt = m_excerpt m \<rparr>"

definition getAnswerFromDocuments :: "string \<Rightarrow> ('i, 'm) document_scheme list \<Rightarrow> fallback_result" where
  "getAnswerFromDocuments question documents =
     (let allMatches = rankedMatches question documents
      in case allMatches of
           [] \<Rightarrow> \<lparr> answer = notFoundOnServer, sources = [], primaryDocument = None \<rparr>
         | best # _ \<Rightarrow>
             \<lparr> answer = m_excerpt best,
               sources = map sourceOfMatch (take (min 3 (length allMatches)) allMatches),
               primaryDocument = Some (m_document best) \<rparr>)"

section \<open>Whole-word matches: \<^verbatim>\<open>new RegExp(`\\b${keyword}\\b`, ...)\<close>\<close>

text \<open>
  Both the client and the model path of the server paste a keyword of the question into a
  regular expression and count its matches in a lower-cased text. For a keyword made of word
  characters only, the expression is the keyword itself between two word boundaries, and the
  number of matches is the number of places where the keyword stands with no word character
  before it and none after it; \<open>prevWord\<close> says whether the character before the place is a
  word character.
\<close>

fun wholeWordCount :: "string \<Rightarrow> bool \<Rightarrow> string \<Rightarrow> nat" where
  "wholeWordCount keyword prevWord [] = 0"
| "wholeWordCount keyword prevWord (c # cs) =
     (if \<not> prevWord \<and> prefix keyword (c # cs)
         \<and> (case drop (length keyword) (c # cs) of [] \<Rightarrow> True | d # _ \<Rightarrow> \<not> isWordChar d)
      then 1 else 0)
     + wholeWordCount keyword (isWordChar c) cs"

text \<open>
  Any other keyword is a regular expression of its own: the characters of the question are
  not escaped. What the engine of the language does with it is a parameter: \<open>rx keyword text\<close>
  is the number of matches, or \<open>None\<close> when the keyword is not a well-formed expression and
  the constructor throws \<^verbatim>\<open>SyntaxError\<close>.
\<close>

type_synonym regex_engine = "string \<Rightarrow> string \<Rightarrow> nat option"

datatype error = SyntaxError | UpstreamModelError

definition countMatches :: "regex_engine \<Rightarrow> string \<Rightarrow> string \<Rightarrow> error + nat" where
  "countMatches rx keyword text =
     (if keyword \<noteq> [] \<and> list_all isWordChar keyword
      then Inr (wholeWordCount keyword False text)
      else (case rx keyword text of None \<Rightarrow> Inl SyntaxError | Some n \<Rightarrow> Inr n))"

section \<open>The keyword search of the client: \<^verbatim>\<open>findAnswerInDocuments\<close>\<close>

record chunk =
  c_text :: string
  c_score :: nat
  c_source :: string

definition stopWords :: "string list" where
  "stopWords = [''what'', ''where'', ''when'', ''who'', ''how'', ''does'', ''this'', ''that'',
                ''with'', ''from'']"

definition keywordsOf :: "string \<Rightarrow> string list" where
  "keywordsOf query =
     filter (\<lambda>w. length w > 3 \<and> w \<notin> set stopWords)
       (splitChar (CHR '' '') [] (filter (\<lambda>c. \<not> isPunctuation c) (toLowerCase query)))"

text \<open>
  \<^verbatim>\<open>content.split(/\n\s*\n/)\<close>. After a line feed, the separator goes on to the last line
  feed of the white space that follows, if there is one: \<open>paragraphBreak\<close> gives the number
  of characters it takes there.
\<close>

definition paragraphBreak :: "string \<Rightarrow> nat option" where
  "paragraphBreak cs =
     (let ws = takeWhile isSpace cs
      in if CHR 0x0A \<in> set ws
         then Some (length ws - length (takeWhile (\<lambda>c. c \<noteq> CHR 0x0A) (rev ws)))
         else None)"

function splitParagraphs :: "string \<Rightarrow> string \<Rightarrow> string list" where
  "splitParagraphs cur [] = [cur]"
| "splitParagraphs cur (c # cs) =
     (if c = CHR 0x0A \<and> paragraphBreak cs \<noteq> None
      then cur # splitParagraphs [] (drop (the (paragraphBreak cs)) cs)
      else splitParagraphs (cur @ [c]) cs)"
  by pat_completeness auto
termination
  by (relation "measure (\<lambda>(cur, s). length s)") auto

text \<open>The loop over the keywords for one chunk; the first exception ends it.\<close>

fun scoreChunk :: "regex_engine \<Rightarrow> string \<Rightarrow> nat \<Rightarrow> string list \<Rightarrow> error + nat" where
  "scoreChunk rx lowerChunk score [] = Inr score"
| "scoreChunk rx lowerChunk score (keyword # rest) =
     (if includesStr lowerChunk keyword then
        (case countMatches rx keyword lowerChunk of
           Inl e \<Rightarrow> Inl e
         | Inr n \<Rightarrow> scoreChunk rx lowerChunk (score + 1 + n) rest)
      else scoreChunk rx lowerChunk score rest)"

text \<open>The loop over the chunks of one document; \<open>relevantChunks\<close> is the array it pushes to.\<close>

fun scanChunks ::
  "regex_engine \<Rightarrow> string list \<Rightarrow> string \<Rightarrow> chunk list \<Rightarrow> string list \<Rightarrow> error + chunk list" where
  "scanChunks rx kws name relevantChunks [] = Inr relevantChunks"
| "scanChunks rx kws name relevantChunks (ch # chs) =
     (case scoreChunk rx (toLowerCase ch) 0 kws of
        Inl e \<Rightarrow> Inl e
      | Inr score \<Rightarrow>
          scanChunks rx kws name
            (if score > 0
             then relevantChunks @ [\<lparr> c_text = trim ch, c_score = score, c_source = name \<rparr>]
             else relevantChunks)
            chs)"

fun scanDocs ::
  "regex_engine \<Rightarrow> string list \<Rightarrow> chunk list \<Rightarrow> ('i, 'm) document_scheme list \<Rightarrow> error + chunk list" where
  "scanDocs rx kws relevantChunks [] = Inr relevantChunks"
| "scanDocs rx kws relevantChunks (doc # docs) =
     (case scanChunks rx kws (doc_name doc) relevantChunks
             (splitParagraphs [] (doc_content doc)) of
        Inl e \<Rightarrow> Inl e
      | Inr relevantChunks' \<Rightarrow> scanDocs rx kws relevantChunks' docs)"

definition compareChunks :: "chunk \<Rightarrow> chunk \<Rightarrow> int" where
  "compareChunks a b = int (c_score b) - int (c_score a)"

text \<open>\<^verbatim>\<open>[...new Set(xs)]\<close>: the first occurrence of each value, in order.\<close>

definition uniqueOf :: "'a list \<Rightarrow> 'a list" where
  "uniqueOf xs = foldl (\<lambda>seen x. if x \<in> set seen then seen else seen @ [x]) [] xs"

text \<open>\<^verbatim>\<open>xs.join(sep)\<close>.\<close>

fun joinWith :: "string \<Rightarrow> string list \<Rightarrow> string" where
  "joinWith sep [] = []"
| "joinWith sep [x] = x"
| "joinWith sep (x # y # ys) = x @ sep @ joinWith sep (y # ys)"

definition askMoreSpecifically :: string where
  "askMoreSpecifically =
     ''Please ask a more specific question with keywords found in your documents.''"

definition notFoundOnClient :: string where
  "notFoundOnClient =
     ''I couldn't find any information dealing with that in your uploaded documents.''"

definition referenced :: string where
  "referenced = ''Referenced in answer generation.''"

text \<open>The chunks with a positive score, sorted: \<^verbatim>\<open>relevantChunks\<close> after the sort.\<close>

definition rankedChunks ::
  "regex_engine \<Rightarrow> string \<Rightarrow> ('i, 'm) document_scheme list \<Rightarrow> error + chunk list" where
  "rankedChunks rx query docs =
     (case scanDocs rx (keywordsOf query) [] docs of
        Inl e \<Rightarrow> Inl e
      | Inr relevantChunks \<Rightarrow> Inr (sortBy compareChunks relevantChunks))"

definition findAnswerInDocuments ::
  "regex_engine \<Rightarrow> string \<Rightarrow> ('i, 'm) document_scheme list \<Rightarrow> error + answer_result" where
  "findAnswerInDocuments rx query docs =
     (if keywordsOf query = [] then Inr \<lparr> answer = askMoreSpecifically, sources = [] \<rparr>
      else
        (case rankedChunks rx query docs of
           Inl e \<Rightarrow> Inl e
         | Inr relevantChunks \<Rightarrow>
             let topChunks = take 3 relevantChunks
             in if topChunks = [] then Inr \<lparr> answer = notFoundOnClient, sources = [] \<rparr>
                else
                  Inr \<lparr> answer = joinWith ''\<newline>\<newline>...\<newline>\<newline>'' (map c_text topChunks),
                        sources = map (\<lambda>name. \<lparr> document = name, excerpt = referenced \<rparr>)
                                      (uniqueOf (map c_source topChunks)) \<rparr>))"

section \<open>The route \<^verbatim>\<open>POST /api/ask\<close>\<close>

text \<open>
  The remote model is a parameter: \<open>completion systemPrompt userMessage\<close> is the text of the
  first choice, or \<open>None\<close> when the call fails (network, authentication, quota) or when the
  reply is not of the shape the handler reads, so that reading the text throws.
\<close>

type_synonym model_client = "string \<Rightarrow> string \<Rightarrow> string option"

definition documentContentOf :: "('i, 'm) document_scheme list \<Rightarrow> string" where
  "documentContentOf docs =
     concat (map (\<lambda>doc. ''\<newline>========== Document: '' @ doc_name doc @ '' ==========\<newline>''
                         @ doc_content doc @ ''\<newline>'') docs)"

definition systemPrompt :: "string \<Rightarrow> string" where
  \<open>systemPrompt documentContent =
     ''You are a document-focused assistant. Your job is to answer questions ONLY based on the provided documents.\<newline>''
     @ ''\<newline>''
     @ ''CRITICAL RULES:\<newline>''
     @ ''1. ONLY use information directly from the documents below\<newline>''
     @ ''2. Do NOT use any external knowledge or training data\<newline>''
     @ ''3. Always cite the specific document name that contains your answer\<newline>''
     @ ''4. If information is not in ANY document, say: "This information is not available in the provided documents."\<newline>''
     @ ''5. Quote directly from the documents when possible\<newline>''
     @ ''6. Format your answer as: "According to [DOCUMENT NAME]: [your answer]"\<newline>''
     @ ''7. Be precise and factual - quote exact text when relevant\<newline>''
     @ ''\<newline>''
     @ ''DOCUMENTS:\<newline>''
     @ documentContent @ ''\<newline>''
     @ ''\<newline>''
     @ ''Remember: Use ONLY the document content to answer. No external knowledge. Always include document name in your answer.''\<close>

text \<open>The keywords of the model path: split at single spaces, longer than three characters.\<close>

definition askQuestionWords :: "string \<Rightarrow> string list" where
  "askQuestionWords question =
     filter (\<lambda>w. length w > 3) (splitChar (CHR '' '') [] (toLowerCase question))"

text \<open>
  \<^verbatim>\<open>map.set(k, v)\<close> and the assignment \<^verbatim>\<open>obj[k] = v\<close>: a key that is there keeps
  its place, a new key goes to the end.
\<close>

fun mapSet :: "'k \<Rightarrow> 'v \<Rightarrow> ('k \<times> 'v) list \<Rightarrow> ('k \<times> 'v) list" where
  "mapSet k v [] = [(k, v)]"
| "mapSet k v ((k', v') # kvs) =
     (if k = k' then (k, v) # kvs else (k', v') # mapSet k v kvs)"

text \<open>
  On a plain object, assigning to \<^verbatim>\<open>__proto__\<close> adds no property, and
  \<^verbatim>\<open>Object.entries\<close> lists the keys that are array indices first, in ascending order,
  then the other keys in the order they were added.
\<close>

definition objectSet :: "string \<Rightarrow> 'v \<Rightarrow> (string \<times> 'v) list \<Rightarrow> (string \<times> 'v) list" where
  "objectSet k v obj = (if k = ''__proto__'' then obj else mapSet k v obj)"

definition decimalValue :: "string \<Rightarrow> nat" where
  "decimalValue k = foldl (\<lambda>n c. 10 * n + (of_char c - 48)) 0 k"

definition isArrayIndex :: "string \<Rightarrow> bool" where
  "isArrayIndex k =
     (k \<noteq> [] \<and> list_all (\<lambda>c. c \<in> set ''0123456789'') k
      \<and> (if k = ''0'' then True else take 1 k \<noteq> ''0'') \<and> decimalValue k < 4294967295)"

definition objectEntries :: "(string \<times> 'v) list \<Rightarrow> (string \<times> 'v) list" where
  "objectEntries obj =
     sort_key (\<lambda>kv. decimalValue (fst kv)) (filter (\<lambda>kv. isArrayIndex (fst kv)) obj)
     @ filter (\<lambda>kv. \<not> isArrayIndex (fst kv)) obj"

text \<open>First pass: the documents whose name, with or without extension, the answer mentions.\<close>

definition mentionedIn :: "string \<Rightarrow> ('i, 'm) document_scheme \<Rightarrow> bool" where
  "mentionedIn answerText doc =
     (let docNameLower = toLowerCase (doc_name doc);
          docNameWithoutExt =
            toLowerCase (case splitChar (CHR ''.'') [] (doc_name doc) of
                           [] \<Rightarrow> [] | first # _ \<Rightarrow> first)
      in includesStr (toLowerCase answerText) docNameLower
         \<or> includesStr (toLowerCase answerText) docNameWithoutExt)"

definition mentionedSources ::
  "string \<Rightarrow> ('i, 'm) document_scheme list \<Rightarrow> (string \<times> ('i, 'm) document_scheme) list" where
  "mentionedSources answerText docs =
     foldl (\<lambda>sourceSet doc.
              if mentionedIn answerText doc then mapSet (doc_name doc) doc sourceSet
              else sourceSet)
           [] docs"

text \<open>Second pass, when the answer mentions no document: two points per whole-word match.\<close>

fun keywordScore :: "regex_engine \<Rightarrow> string \<Rightarrow> nat \<Rightarrow> string list \<Rightarrow> error + nat" where
  "keywordScore rx contentLower score [] = Inr score"
| "keywordScore rx contentLower score (word # rest) =
     (case countMatches rx word contentLower of
        Inl e \<Rightarrow> Inl e
      | Inr matches \<Rightarrow> keywordScore rx contentLower (score + matches * 2) rest)"

fun scoreDocuments ::
  "regex_engine \<Rightarrow> string list \<Rightarrow> (string \<times> nat \<times> ('i, 'm) document_scheme) list
     \<Rightarrow> ('i, 'm) document_scheme list
     \<Rightarrow> error + (string \<times> nat \<times> ('i, 'm) document_scheme) list" where
  "scoreDocuments rx ws documentScores [] = Inr documentScores"
| "scoreDocuments rx ws documentScores (doc # docs) =
     (case keywordScore rx (toLowerCase (doc_content doc)) 0 ws of
        Inl e \<Rightarrow> Inl e
      | Inr score \<Rightarrow>
          scoreDocuments rx ws
            (if score > 0 then objectSet (doc_name doc) (score, doc) documentScores
             else documentScores)
            docs)"

definition compareScored :: "string \<times> nat \<times> 'd \<Rightarrow> string \<times> nat \<times> 'd \<Rightarrow> int" where
  "compareScored a b = int (fst (snd b)) - int (fst (snd a))"

definition keywordSources ::
  "regex_engine \<Rightarrow> string list \<Rightarrow> ('i, 'm) document_scheme list
     \<Rightarrow> error + (string \<times> ('i, 'm) document_scheme) list" where
  "keywordSources rx ws docs =
     (case scoreDocuments rx ws [] docs of
        Inl e \<Rightarrow> Inl e
      | Inr documentScores \<Rightarrow>
          let sortedDocs = take 3 (sortBy compareScored (objectEntries documentScores))
          in Inr (foldl (\<lambda>sourceSet entry. mapSet (fst entry) (snd (snd entry)) sourceSet)
                        [] sortedDocs))"

text \<open>Third pass: for each cited document, the sentence with the most keywords in it.\<close>

definition wordMatches :: "string list \<Rightarrow> string \<Rightarrow> nat" where
  "wordMatches ws sentence =
     length (filter (\<lambda>w. includesStr (toLowerCase sentence) (toLowerCase w)) ws)"

definition relevantSentences :: "string list \<Rightarrow> ('i, 'm) document_scheme \<Rightarrow> string list" where
  "relevantSentences ws doc =
     sortBy (\<lambda>a b. int (wordMatches ws b) - int (wordMatches ws a))
       (filter (\<lambda>sentence.
                  list_ex (\<lambda>word. includesStr (toLowerCase sentence) (toLowerCase word)) ws)
               (sentencesOf (doc_content doc)))"

definition excerptsOf ::
  "string list \<Rightarrow> (string \<times> ('i, 'm) document_scheme) list \<Rightarrow> source list" where
  "excerptsOf ws sourceSet =
     concat (map (\<lambda>entry.
                    case relevantSentences ws (snd entry) of
                      [] \<Rightarrow> []
                    | best # _ \<Rightarrow>
                        [\<lparr> document = fst entry, excerpt = substring0 (trim best) 250 \<rparr>])
                 sourceSet)"

definition attributeSources ::
  "regex_engine \<Rightarrow> string \<Rightarrow> ('i, 'm) document_scheme list \<Rightarrow> string \<Rightarrow> error + source list" where
  "attributeSources rx question docs answerText =
     (let ws = askQuestionWords question;
          mentionedSet = mentionedSources answerText docs
      in case (if mentionedSet = [] then keywordSources rx ws docs else Inr mentionedSet) of
           Inl e \<Rightarrow> Inl e
         | Inr sourceSet \<Rightarrow> Inr (excerptsOf ws sourceSet))"

text \<open>The \<^verbatim>\<open>try\<close> block after the check of the client: \<open>Inl\<close> is an exception thrown in it.\<close>

definition askModel ::
  "regex_engine \<Rightarrow> model_client \<Rightarrow> string \<Rightarrow> ('i, 'm) document_scheme list \<Rightarrow> error + ask_result" where
  "askModel rx completion question docs =
     (case completion (systemPrompt (documentContentOf docs)) question of
        None \<Rightarrow> Inl UpstreamModelError
      | Some answerText \<Rightarrow>
          (case attributeSources rx question docs answerText of
             Inl e \<Rightarrow> Inl e
           | Inr found \<Rightarrow>
               Inr \<lparr> answer = answerText, sources = take 3 found, question_echo = question,
                     confidence = 95 / 100, method_tag = ''openai'' \<rparr>))"

text \<open>The \<^verbatim>\<open>catch\<close> block.\<close>

definition askFallback :: "string \<Rightarrow> ('i, 'm) document_scheme list \<Rightarrow> ask_result" where
  "askFallback question docs =
     (let fallbackResult = getAnswerFromDocuments question docs
      in \<lparr> answer = answer fallbackResult, sources = sources fallbackResult,
           question_echo = question, confidence = 7 / 10, method_tag = ''fallback_search'' \<rparr>)"

text \<open>
  The body of the request is parsed as JSON, so the field \<^verbatim>\<open>question\<close> is any JSON
  value when it is there; the handler does not look at its type.
\<close>

datatype json =
    JNull
  | JBool bool
  | JNumber rat
  | JString string
  | JArray "json list"
  | JObject "(string \<times> json) list"

text \<open>\<^verbatim>\<open>!question\<close>, with \<open>None\<close> for a field that is not there.\<close>

fun falsy :: "json option \<Rightarrow> bool" where
  "falsy None = True"
| "falsy (Some JNull) = True"
| "falsy (Some (JBool b)) = (\<not> b)"
| "falsy (Some (JNumber n)) = (n = 0)"
| "falsy (Some (JString s)) = (s = [])"
| "falsy (Some (JArray xs)) = False"
| "falsy (Some (JObject kvs)) = False"

text \<open>
  The handler. A question that is no string passes the first check when it is truthy. Then
  \<^verbatim>\<open>question.toLowerCase()\<close> throws in the \<^verbatim>\<open>try\<close> block, unless the call of
  the model has thrown before, and the \<^verbatim>\<open>catch\<close> block calls the keyword search, where
  \<^verbatim>\<open>question.toLowerCase()\<close> throws again: the exception leaves the handler and no
  response is sent.
\<close>

definition ask :: "regex_engine \<Rightarrow> model_client \<Rightarrow> server \<Rightarrow> json option \<Rightarrow> response" where
  "ask rx completion st bodyQuestion =
     (if falsy bodyQuestion then Response 400 (ErrorBody ''Question is required'')
      else if uploadedDocuments st = [] then Response 400 (ErrorBody ''No documents uploaded'')
      else if \<not> openai st then
        Response 500 (ErrorBody ''OpenAI API not initialized. Please check your API key.'')
      else
        (case bodyQuestion of
           Some (JString question) \<Rightarrow>
             (case askModel rx completion question (uploadedDocuments st) of
                Inr result \<Rightarrow> Response 200 (AskBody result)
              | Inl e \<Rightarrow> Response 200 (AskBody (askFallback question (uploadedDocuments st))))
         | _ \<Rightarrow> Uncaught))"

section \<open>Orders and candidates, for stating the properties\<close>

text \<open>The key that \<open>compareMatches\<close> sorts by, ascending: score, then match count, both descending.\<close>

definition matchKey :: "match \<Rightarrow> int \<times> int" where
  "matchKey m = (- int (m_score m), - int (m_matchCount m))"

text \<open>
  Every candidate unit with its score, before the test \<open>score > 0\<close>: the sentences of the
  server and the chunks of the client. A chunk whose scoring throws has no score; the search
  stops there and ranks nothing.
\<close>

definition candidateMatches :: "string \<Rightarrow> ('i, 'm) document_scheme list \<Rightarrow> match list" where
  "candidateMatches question docs =
     concat (map (\<lambda>doc. map (\<lambda>sentence. matchOf doc sentence (scoreSentence question sentence))
                             (sentencesOf (doc_content doc)))
                 docs)"

definition chunkScore :: "regex_engine \<Rightarrow> string list \<Rightarrow> string \<Rightarrow> nat" where
  "chunkScore rx kws ch = (case scoreChunk rx (toLowerCase ch) 0 kws of Inr n \<Rightarrow> n | Inl e \<Rightarrow> 0)"

definition chunkOf :: "regex_engine \<Rightarrow> string list \<Rightarrow> string \<Rightarrow> string \<Rightarrow> chunk" where
  "chunkOf rx kws name ch =
     \<lparr> c_text = trim ch, c_score = chunkScore rx kws ch, c_source = name \<rparr>"

definition candidateChunks ::
  "regex_engine \<Rightarrow> string list \<Rightarrow> ('i, 'm) document_scheme list \<Rightarrow> chunk list" where
  "candidateChunks rx kws docs =
     concat (map (\<lambda>doc. map (chunkOf rx kws (doc_name doc)) (splitParagraphs [] (doc_content doc)))
                 docs)"

text \<open>The match count of a unit: how many of the keywords its lower-cased text contains.\<close>

definition keywordHits :: "string list \<Rightarrow> string \<Rightarrow> nat" where
  "keywordHits kws text = length (filter (includesStr (toLowerCase text)) kws)"


text \<open>Two documents with the same name and the same content, whatever else they carry.\<close>

definition sameText :: "('i, 'm) document_scheme \<Rightarrow> ('j, 'n) document_scheme \<Rightarrow> bool" where
  "sameText a b = (doc_name a = doc_name b \<and> doc_content a = doc_content b)"


section \<open>Concrete inputs\<close>

definition oneDocServer :: server where
  "oneDocServer = run (startServer True) [Upload (Some (textFile ''a.txt'')) (Some ''alpha'') 1]"

definition oneDocClient :: client where
  "oneDocClient =
     (let docs = [\<lparr> doc_id = ''1700000000000'', doc_name = ''a.txt'', doc_content = ''alpha'',
                    doc_size = 5, doc_uploadedAt = 1 \<rparr>]
      in \<lparr> c_uploadedDocuments = docs, c_storage = Some docs \<rparr>)"

text \<open>
  A regular expression engine that rejects every keyword it is asked about. It is asked about
  the keywords that are not made of word characters only; in the inputs below the only such
  keyword that reaches it is \<^verbatim>\<open>(weeks\<close>, an unterminated group, which is no
  regular expression.
\<close>

definition noRegex :: regex_engine where
  "noRegex = (\<lambda>keyword text. None)"

definition modelDown :: model_client where
  "modelDown = (\<lambda>systemPrompt userMessage. None)"

definition modelSays :: "string \<Rightarrow> model_client" where
  "modelSays reply = (\<lambda>systemPrompt userMessage. Some reply)"

definition stored :: "int \<Rightarrow> string \<Rightarrow> string \<Rightarrow> server_document" where
  "stored i n text =
     \<lparr> doc_id = i, doc_name = n, doc_content = text, doc_size = length text,
       doc_uploadedAt = 0, doc_filename = ''file-'' @ n, doc_path = ''uploads/file-'' @ n \<rparr>"

definition policy :: server_document where
  "policy = stored 2 ''policy.txt''
     ''Vacation requests must be submitted 2 weeks in advance. Approval is manager discretion.''"

definition handbook :: server_document where
  "handbook = stored 1 ''handbook.txt''
     ''Vacation requests need two weeks notice. Vacation days expire in december! Is unused vacation paid out? Every vacation needs approval.''"

definition serverWith :: "bool \<Rightarrow> server_document list \<Rightarrow> server" where
  "serverWith hasClient docs =
     \<lparr> uploadedDocuments = docs, openai = hasClient, disk = map doc_path docs \<rparr>"

definition memo :: "string \<Rightarrow> string \<Rightarrow> string document" where
  "memo n text =
     \<lparr> doc_id = n, doc_name = n, doc_content = text, doc_size = length text,
       doc_uploadedAt = 0 \<rparr>"

definition fourNotes :: "string document list" where
  "fourNotes = [memo ''a.txt'' ''vacation one'', memo ''b.txt'' ''vacation two'',
                memo ''c.txt'' ''vacation three'', memo ''d.txt'' ''vacation four'']"


definition isItNote :: "string document" where
  "isItNote = memo ''a.txt'' ''What is it that we are doing here''"

definition threeNotes :: "string document list" where
  "threeNotes = [memo ''one.txt'' ''alpha'', memo ''two.txt'' ''alpha beta'',
                 memo ''three.txt'' ''beta'']"

text \<open>The stored document \<open>policy\<close> as the client would hold it, with other metadata.\<close>

definition policyNote :: "string document" where
  "policyNote =
     \<lparr> doc_id = ''1700000000000'', doc_name = ''policy.txt'',
       doc_content = ''Vacation requests must be submitted 2 weeks in advance. Approval is manager discretion.'',
       doc_size = 0, doc_uploadedAt = 1700000000000 \<rparr>"

section \<open>Properties of the stores\<close>

lemma findIndex_None: "findIndex p xs = None \<longleftrightarrow> (\<forall>x \<in> set xs. \<not> p x)"
  by (induction xs) auto

text \<open>
  Claim C2, at the input where the server breaks it. The id of an upload is the length of the
  array plus one, so after two uploads and the deletion of document 1 the third upload gets
  id 2, which the second document still has: the store holds two documents with the same id.
\<close>

theorem upload_after_delete_reuses_id:
  "map doc_id (uploadedDocuments (run (startServer True)
       [Upload (Some (textFile ''a.txt'')) (Some ''alpha'') 1,
        Upload (Some (textFile ''b.txt'')) (Some ''beta'') 2,
        Delete (Some 1) False,
        Upload (Some (textFile ''c.txt'')) (Some ''gamma'') 3])) = [2, 2]"
  by (simp add: run_def upload_def storeFile_def deleteDocument_def startServer_def textFile_def Let_def)

lemma deleteDocument_absent:
  assumes "\<forall>d \<in> set (uploadedDocuments st). Some (doc_id d) \<noteq> docId"
  shows "deleteDocument st docId unlinkThrows
           = (st, Response 404 (ErrorBody ''Document not found''))"
proof -
  from assms have "findIndex (\<lambda>doc. Some (doc_id doc) = docId) (uploadedDocuments st) = None"
    by (simp add: findIndex_None)
  then show ?thesis
    by (simp add: deleteDocument_def)
qed

lemma handleDeleteDocument_absent:
  assumes "\<forall>d \<in> set (c_uploadedDocuments c). doc_id d \<noteq> cid"
  shows "c_uploadedDocuments (handleDeleteDocument c confirmed cid) = c_uploadedDocuments c"
    and "c_storage (handleDeleteDocument c confirmed cid)
           = (if confirmed then Some (c_uploadedDocuments c) else c_storage c)"
    and "c_storage c = Some (c_uploadedDocuments c) \<Longrightarrow> handleDeleteDocument c confirmed cid = c"
proof -
  from assms
  have same: "filter (\<lambda>doc. doc_id doc \<noteq> cid) (c_uploadedDocuments c) = c_uploadedDocuments c"
    by (simp add: filter_id_conv)
  then show "c_uploadedDocuments (handleDeleteDocument c confirmed cid) = c_uploadedDocuments c"
    by (simp add: handleDeleteDocument_def)
  from same show "c_storage (handleDeleteDocument c confirmed cid)
           = (if confirmed then Some (c_uploadedDocuments c) else c_storage c)"
    by (simp add: handleDeleteDocument_def)
  assume "c_storage c = Some (c_uploadedDocuments c)"
  with same show "handleDeleteDocument c confirmed cid = c"
    by (simp add: handleDeleteDocument_def)
qed

text \<open>
  Claim C9: deleting an id that no stored document has changes nothing and raises nothing.
  The server leaves its whole state as it was and sends a response, of status 404; the
  client keeps its list, saves that same list when the user confirms, and is unchanged
  altogether when the saved list was the list in its state.
\<close>

theorem delete_absent_id_keeps_store:
  "((\<forall>d \<in> set (uploadedDocuments st). Some (doc_id d) \<noteq> docId) \<longrightarrow>
      deleteDocument st docId unlinkThrows
        = (st, Response 404 (ErrorBody ''Document not found'')))
   \<and> ((\<forall>d \<in> set (c_uploadedDocuments c). doc_id d \<noteq> cid) \<longrightarrow>
        c_uploadedDocuments (handleDeleteDocument c confirmed cid) = c_uploadedDocuments c
        \<and> c_storage (handleDeleteDocument c confirmed cid)
            = (if confirmed then Some (c_uploadedDocuments c) else c_storage c)
        \<and> (c_storage c = Some (c_uploadedDocuments c) \<longrightarrow>
             handleDeleteDocument c confirmed cid = c))"
  using deleteDocument_absent [of st docId unlinkThrows]
        handleDeleteDocument_absent [of c cid confirmed]
  by blast

theorem delete_absent_id_keeps_store_witness:
  "map doc_id (uploadedDocuments oneDocServer) = [1]
   \<and> deleteDocument oneDocServer (Some 7) False
       = (oneDocServer, Response 404 (ErrorBody ''Document not found''))
   \<and> map doc_id (c_uploadedDocuments oneDocClient) = [''1700000000000'']
   \<and> c_storage oneDocClient = Some (c_uploadedDocuments oneDocClient)
   \<and> handleDeleteDocument oneDocClient True ''42'' = oneDocClient"
proof -
  have s: "\<forall>d \<in> set (uploadedDocuments oneDocServer). Some (doc_id d) \<noteq> Some 7"
    by (simp add: oneDocServer_def run_def upload_def storeFile_def startServer_def textFile_def Let_def)
  have c: "\<forall>d \<in> set (c_uploadedDocuments oneDocClient). doc_id d \<noteq> ''42''"
    by (simp add: oneDocClient_def Let_def)
  have k: "c_storage oneDocClient = Some (c_uploadedDocuments oneDocClient)"
    by (simp add: oneDocClient_def Let_def)
  have i: "map doc_id (uploadedDocuments oneDocServer) = [1]"
    by (simp add: oneDocServer_def run_def upload_def storeFile_def startServer_def textFile_def Let_def)
  have j: "map doc_id (c_uploadedDocuments oneDocClient) = [''1700000000000'']"
    by (simp add: oneDocClient_def Let_def)
  from s c k i j
    delete_absent_id_keeps_store [of oneDocServer "Some 7" False oneDocClient "''42''" True]
  show ?thesis by blast
qed

section \<open>Properties of the sort and of the set of names\<close>

lemma insertBy_insort_key:
  assumes "\<And>a b. cmp a b \<le> 0 \<longleftrightarrow> key a \<le> key b"
  shows "insertBy cmp x ys = insort_key key x ys"
  by (induction ys) (simp_all add: assms)

lemma sortBy_sort_key:
  assumes "\<And>a b. cmp a b \<le> 0 \<longleftrightarrow> key a \<le> key b"
  shows "sortBy cmp xs = sort_key key xs"
  by (induction xs) (simp_all add: sortBy_def insertBy_insort_key [OF assms])

lemma mset_insertBy: "mset (insertBy cmp x ys) = add_mset x (mset ys)"
  by (induction ys) simp_all

lemma mset_sortBy: "mset (sortBy cmp xs) = mset xs"
  by (induction xs) (simp_all add: sortBy_def mset_insertBy)

lemma set_sortBy: "set (sortBy cmp xs) = set xs"
  using mset_sortBy [of cmp xs] by (metis set_mset_mset)

lemma compareMatches_key: "compareMatches a b \<le> 0 \<longleftrightarrow> matchKey a \<le> matchKey b"
  by (auto simp: compareMatches_def matchKey_def less_eq_prod_def)

lemma compareChunks_key: "compareChunks a b \<le> 0 \<longleftrightarrow> - int (c_score a) \<le> - int (c_score b)"
  by (auto simp: compareChunks_def)

lemma sortBy_matches_sorted:
  "sorted_wrt (\<lambda>a b. m_score b < m_score a \<or> (m_score b = m_score a \<and> m_matchCount b \<le> m_matchCount a))
     (sortBy compareMatches xs)"
proof -
  have "sorted (map matchKey (sort_key matchKey xs))"
    by (rule sorted_sort_key)
  then have "sorted_wrt (\<lambda>a b. matchKey a \<le> matchKey b) (sortBy compareMatches xs)"
    by (simp add: sortBy_sort_key [of compareMatches matchKey, OF compareMatches_key] sorted_map)
  then show ?thesis
    by (rule sorted_wrt_mono_rel [rotated]) (auto simp: matchKey_def less_eq_prod_def)
qed

lemma sortBy_matches_stable:
  "filter (\<lambda>m. m_score m = s \<and> m_matchCount m = n) (sortBy compareMatches xs)
     = filter (\<lambda>m. m_score m = s \<and> m_matchCount m = n) xs"
proof -
  have eq: "(\<lambda>m. m_score m = s \<and> m_matchCount m = n) = (\<lambda>m. matchKey m = (- int s, - int n))"
    by (auto simp: matchKey_def fun_eq_iff)
  show ?thesis
    unfolding eq sortBy_sort_key [of compareMatches matchKey, OF compareMatches_key]
    by (rule sort_key_stable)
qed

lemma sortBy_chunks_sorted:
  "sorted_wrt (\<lambda>a b. c_score b \<le> c_score a) (sortBy compareChunks xs)"
proof -
  have "sorted (map (\<lambda>c. - int (c_score c)) (sort_key (\<lambda>c. - int (c_score c)) xs))"
    by (rule sorted_sort_key)
  then have "sorted_wrt (\<lambda>a b. - int (c_score a) \<le> - int (c_score b)) (sortBy compareChunks xs)"
    by (simp add: sortBy_sort_key [of compareChunks "\<lambda>c. - int (c_score c)", OF compareChunks_key] sorted_map)
  then show ?thesis
    by (rule sorted_wrt_mono_rel [rotated]) auto
qed

lemma sortBy_chunks_stable:
  "filter (\<lambda>c. c_score c = s) (sortBy compareChunks xs) = filter (\<lambda>c. c_score c = s) xs"
proof -
  have eq: "(\<lambda>c. c_score c = s) = (\<lambda>c. - int (c_score c) = - int s)"
    by (auto simp: fun_eq_iff)
  show ?thesis
    unfolding eq sortBy_sort_key [of compareChunks "\<lambda>c. - int (c_score c)", OF compareChunks_key]
    by (rule sort_key_stable)
qed

lemma set_uniqueOf_aux:
  "set (foldl (\<lambda>seen x. if x \<in> set seen then seen else seen @ [x]) acc xs) = set acc \<union> set xs"
  by (induction xs arbitrary: acc) auto


lemma length_uniqueOf_aux:
  "length (foldl (\<lambda>seen x. if x \<in> set seen then seen else seen @ [x]) acc xs) \<le> length acc + length xs"
proof (induction xs arbitrary: acc)
  case Nil
  show ?case by simp
next
  case (Cons x xs)
  show ?case using Cons.IH [of acc] Cons.IH [of "acc @ [x]"] by auto
qed


lemma set_uniqueOf: "set (uniqueOf xs) = set xs"
  by (simp add: uniqueOf_def set_uniqueOf_aux)

lemma length_uniqueOf: "length (uniqueOf xs) \<le> length xs"
  using length_uniqueOf_aux [of "[]" xs] by (simp add: uniqueOf_def)

section \<open>Properties of the pieces of a text and of the results\<close>

lemma includesStr_sublist: "includesStr s sub \<longleftrightarrow> sublist sub s"
  by (induction s) (simp_all add: sublist_Cons_right)

lemma sublist_trans3: "sublist a b \<Longrightarrow> sublist b c \<Longrightarrow> sublist a c"
  by (rule sublist_order.order_trans)

lemma splitRuns_sublist: "p \<in> set (splitRuns P cur s) \<Longrightarrow> sublist p (cur @ s)"
proof (induction P cur s rule: splitRuns.induct)
  case (1 P cur)
  then show ?case by simp
next
  case (2 P cur c cs)
  show ?case
  proof (cases "P c")
    case True
    with "2.prems" consider "p = cur" | "p \<in> set (splitRuns P [] (dropWhile P cs))"
      by auto
    then show ?thesis
    proof cases
      case 1
      then show ?thesis by simp
    next
      case 2
      with "2.IH"(1) True have "sublist p (dropWhile P cs)" by simp
      then have "sublist p cs"
        by (rule sublist_trans3) simp
      then have "sublist p ((cur @ [c]) @ cs)"
        by (rule sublist_trans3) (rule sublist_append_leftI)
      then show ?thesis by simp
    qed
  next
    case False
    with "2.prems" "2.IH"(2) show ?thesis by simp
  qed
qed



lemma trim_sublist: "sublist (trim s) s"
proof -
  have "sublist (dropWhile isSpace (rev (dropWhile isSpace s))) (rev (dropWhile isSpace s))"
    by simp
  then have "sublist (trim s) (dropWhile isSpace s)"
    by (simp add: trim_def sublist_rev_left)
  then show ?thesis
    by (rule sublist_trans3) simp
qed

lemma sentencesOf_sublist: "s \<in> set (sentencesOf content) \<Longrightarrow> sublist s content"
proof -
  assume "s \<in> set (sentencesOf content)"
  then obtain p where p: "p \<in> set (splitRuns isTerminator [] content)" and s: "s = trim p"
    by (auto simp: sentencesOf_def)
  from p have "sublist p content"
    using splitRuns_sublist [of p isTerminator "[]" content] by simp
  with s show ?thesis
    using trim_sublist [of p] sublist_trans3 by blast
qed

lemma excerpt300_sublist:
  "s \<in> set (sentencesOf content) \<Longrightarrow> sublist (substring0 (trim s) 300) content"
proof -
  assume "s \<in> set (sentencesOf content)"
  then have "sublist s content" by (rule sentencesOf_sublist)
  moreover have "sublist (substring0 (trim s) 300) s"
    unfolding substring0_def using trim_sublist [of s] sublist_take sublist_trans3 by blast
  ultimately show ?thesis using sublist_trans3 by blast
qed

lemma collectMatches_origin:
  assumes "m \<in> set (collectMatches question docs)"
  shows "\<exists>d \<in> set docs. \<exists>s \<in> set (sentencesOf (doc_content d)).
           m = matchOf d s (scoreSentence question s) \<and> 0 < fst (scoreSentence question s)"
  using assms
  by (auto simp: collectMatches_def matchesOfDocument_def Let_def split: if_splits)

lemma sources_getAnswer:
  "sources (getAnswerFromDocuments question docs)
     = map sourceOfMatch (take 3 (rankedMatches question docs))"
  by (simp add: getAnswerFromDocuments_def Let_def min_def split: list.splits)

lemma sources_getAnswer_subset:
  "set (sources (getAnswerFromDocuments question docs))
     \<subseteq> sourceOfMatch ` set (collectMatches question docs)"
proof -
  have "set (take 3 (rankedMatches question docs)) \<subseteq> set (collectMatches question docs)"
    using set_take_subset [of 3 "rankedMatches question docs"]
    by (simp add: rankedMatches_def set_sortBy)
  then show ?thesis
    unfolding sources_getAnswer by auto
qed

lemma length_sources_getAnswer: "length (sources (getAnswerFromDocuments question docs)) \<le> 3"
  by (simp add: sources_getAnswer)

lemma length_sources_askModel:
  "askModel rx completion question docs = Inr r \<Longrightarrow> length (sources r) \<le> 3"
  by (auto simp: askModel_def split: option.splits sum.splits)

lemma length_sources_askFallback: "length (sources (askFallback question docs)) \<le> 3"
  by (simp add: askFallback_def Let_def length_sources_getAnswer)

lemma length_sources_ask:
  "ask rx completion st bodyQuestion = Response code (AskBody r) \<Longrightarrow> length (sources r) \<le> 3"
  using length_sources_askModel length_sources_askFallback
  by (auto simp: ask_def split: option.splits if_splits sum.splits json.splits)

lemma length_sources_find:
  "findAnswerInDocuments rx query docs = Inr r \<Longrightarrow> length (sources r) \<le> 3"
proof -
  have "length (uniqueOf (map c_source (take 3 cs))) \<le> 3" for cs :: "chunk list"
    using length_uniqueOf [of "map c_source (take 3 cs)"] by simp
  then show "findAnswerInDocuments rx query docs = Inr r \<Longrightarrow> length (sources r) \<le> 3"
    by (auto simp: findAnswerInDocuments_def Let_def split: if_splits sum.splits)
qed


lemma scanChunks_sources:
  "scanChunks rx kws name acc chs = Inr rel \<Longrightarrow> c \<in> set rel \<Longrightarrow>
     c \<in> set acc \<or> c_source c = name"
proof (induction chs arbitrary: acc)
  case Nil
  then show ?case by simp
next
  case (Cons ch chs)
  from Cons.prems(1) obtain score where
    r: "scanChunks rx kws name
          (if score > 0 then acc @ [\<lparr> c_text = trim ch, c_score = score, c_source = name \<rparr>] else acc)
          chs = Inr rel"
    by (auto split: sum.splits)
  from Cons.IH [OF r Cons.prems(2)] show ?case
    by (auto split: if_splits)
qed

lemma scanDocs_sources:
  "scanDocs rx kws acc docs = Inr rel \<Longrightarrow> c \<in> set rel \<Longrightarrow>
     c \<in> set acc \<or> c_source c \<in> doc_name ` set docs"
proof (induction docs arbitrary: acc)
  case Nil
  then show ?case by simp
next
  case (Cons d docs)
  from Cons.prems(1) obtain mid where
    m: "scanChunks rx kws (doc_name d) acc (splitParagraphs [] (doc_content d)) = Inr mid"
    and r: "scanDocs rx kws mid docs = Inr rel"
    by (auto split: sum.splits)
  from Cons.IH [OF r Cons.prems(2)] consider "c \<in> set mid" | "c_source c \<in> doc_name ` set docs"
    by blast
  then show ?case
  proof cases
    case 1
    from scanChunks_sources [OF m 1] show ?thesis by auto
  next
    case 2
    then show ?thesis by simp
  qed
qed

lemma sources_find_origin:
  assumes "findAnswerInDocuments rx query docs = Inr r" and "src \<in> set (sources r)"
  shows "excerpt src = referenced \<and> (\<exists>d \<in> set docs. document src = doc_name d)"
proof (cases "keywordsOf query = []")
  case True
  with assms show ?thesis by (auto simp: findAnswerInDocuments_def)
next
  case False
  with assms(1) obtain ranked where rk: "rankedChunks rx query docs = Inr ranked"
    by (auto simp: findAnswerInDocuments_def split: sum.splits)
  then obtain rel where rel: "scanDocs rx (keywordsOf query) [] docs = Inr rel"
    and ranked: "ranked = sortBy compareChunks rel"
    by (auto simp: rankedChunks_def split: sum.splits)
  from assms False rk
  obtain name where name: "name \<in> set (uniqueOf (map c_source (take 3 ranked)))"
    and src: "src = \<lparr> document = name, excerpt = referenced \<rparr>"
    by (auto simp: findAnswerInDocuments_def Let_def split: if_splits)
  from name obtain c where c: "c \<in> set (take 3 ranked)" and cn: "name = c_source c"
    by (auto simp: set_uniqueOf)
  from c have "c \<in> set rel"
    using set_take_subset [of 3 ranked] by (auto simp: ranked set_sortBy)
  from scanDocs_sources [OF rel this] cn have "name \<in> doc_name ` set docs"
    by simp
  with src show ?thesis by auto
qed

lemma sources_getAnswer_origin:
  assumes "src \<in> set (sources (getAnswerFromDocuments question docs))"
  shows "\<exists>d \<in> set docs. document src = doc_name d \<and> sublist (excerpt src) (doc_content d)
           \<and> length (excerpt src) \<le> 300"
proof -
  from assms sources_getAnswer_subset [of question docs]
  obtain m where m: "m \<in> set (collectMatches question docs)" and src: "src = sourceOfMatch m"
    by auto
  from collectMatches_origin [OF m]
  obtain d s where d: "d \<in> set docs" and s: "s \<in> set (sentencesOf (doc_content d))"
    and eq: "m = matchOf d s (scoreSentence question s)"
    by auto
  from src eq have "document src = doc_name d" and e: "excerpt src = substring0 (trim s) 300"
    by (simp_all add: sourceOfMatch_def matchOf_def)
  moreover from e have "sublist (excerpt src) (doc_content d)"
    using excerpt300_sublist [OF s] by simp
  moreover from e have "length (excerpt src) \<le> 300"
    by (simp add: substring0_def)
  ultimately show ?thesis using d by blast
qed

lemma scoreSentence_no_words:
  "questionWords question = [] \<Longrightarrow>
     scoreSentence question s
       = (if includesStr (toLowerCase s) (questionPhrase question) then 10 else 0, 0)"
  by (simp add: scoreSentence_def)

lemma getAnswer_no_matches:
  assumes "\<forall>d \<in> set docs. \<forall>s \<in> set (sentencesOf (doc_content d)). fst (scoreSentence question s) = 0"
  shows "getAnswerFromDocuments question docs
           = \<lparr> answer = notFoundOnServer, sources = [], primaryDocument = None \<rparr>"
proof -
  have "collectMatches question docs = []"
    using assms by (auto simp: collectMatches_def matchesOfDocument_def Let_def)
  then show ?thesis
    by (simp add: getAnswerFromDocuments_def rankedMatches_def sortBy_def)
qed





section \<open>The claims about the sources list\<close>

text \<open>
  Claim C5: the sources list of a result has at most three entries, whatever the question
  and the documents: in the result of the keyword search of the server, in every answer that
  \<^verbatim>\<open>POST /api/ask\<close> sends (from the model or from the fallback), and in every result
  of the client.
\<close>

theorem sources_at_most_three:
  "length (sources (getAnswerFromDocuments question docs)) \<le> 3
   \<and> (\<forall>code r. ask rx completion st bodyQuestion = Response code (AskBody r)
          \<longrightarrow> length (sources r) \<le> 3)
   \<and> (\<forall>r. findAnswerInDocuments rx' query cdocs = Inr r \<longrightarrow> length (sources r) \<le> 3)"
  using length_sources_getAnswer [of question docs]
        length_sources_ask [of rx completion st bodyQuestion]
        length_sources_find [of rx' query cdocs]
  by blast

theorem sources_at_most_three_witness:
  "ask noRegex modelDown (serverWith True [handbook]) (Some (JString ''vacation rules''))
     = Response 200 (AskBody
         \<lparr> answer = ''Vacation requests need two weeks notice'',
           sources = [\<lparr> document = ''handbook.txt'', excerpt = ''Vacation requests need two weeks notice'' \<rparr>,
                      \<lparr> document = ''handbook.txt'', excerpt = ''Vacation days expire in december'' \<rparr>,
                      \<lparr> document = ''handbook.txt'', excerpt = ''Is unused vacation paid out'' \<rparr>],
           question_echo = ''vacation rules'', confidence = 7 / 10,
           method_tag = ''fallback_search'' \<rparr>)
   \<and> findAnswerInDocuments noRegex ''vacation rules'' fourNotes
     = Inr \<lparr> answer = ''vacation one\<newline>\<newline>...\<newline>\<newline>vacation two\<newline>\<newline>...\<newline>\<newline>vacation three'',
             sources = [\<lparr> document = ''a.txt'', excerpt = ''Referenced in answer generation.'' \<rparr>,
                        \<lparr> document = ''b.txt'', excerpt = ''Referenced in answer generation.'' \<rparr>,
                        \<lparr> document = ''c.txt'', excerpt = ''Referenced in answer generation.'' \<rparr>] \<rparr>
   \<and> length (sources (getAnswerFromDocuments ''vacation rules'' [handbook])) \<le> 3"
proof -
  have a: "ask noRegex modelDown (serverWith True [handbook]) (Some (JString ''vacation rules''))
     = Response 200 (AskBody
         \<lparr> answer = ''Vacation requests need two weeks notice'',
           sources = [\<lparr> document = ''handbook.txt'', excerpt = ''Vacation requests need two weeks notice'' \<rparr>,
                      \<lparr> document = ''handbook.txt'', excerpt = ''Vacation days expire in december'' \<rparr>,
                      \<lparr> document = ''handbook.txt'', excerpt = ''Is unused vacation paid out'' \<rparr>],
           question_echo = ''vacation rules'', confidence = 7 / 10,
           method_tag = ''fallback_search'' \<rparr>)"
    by code_simp
  have f: "findAnswerInDocuments noRegex ''vacation rules'' fourNotes
     = Inr \<lparr> answer = ''vacation one\<newline>\<newline>...\<newline>\<newline>vacation two\<newline>\<newline>...\<newline>\<newline>vacation three'',
             sources = [\<lparr> document = ''a.txt'', excerpt = ''Referenced in answer generation.'' \<rparr>,
                        \<lparr> document = ''b.txt'', excerpt = ''Referenced in answer generation.'' \<rparr>,
                        \<lparr> document = ''c.txt'', excerpt = ''Referenced in answer generation.'' \<rparr>] \<rparr>"
    by code_simp
  from a f
    sources_at_most_three [of "''vacation rules''" "[handbook]" noRegex modelDown
      "serverWith True [handbook]" "Some (JString ''vacation rules'')" noRegex "''vacation rules''" fourNotes]
  show ?thesis by blast
qed



section \<open>Where the sources of the model path come from\<close>

lemma set_mapSet: "set (mapSet k v kvs) \<subseteq> insert (k, v) (set kvs)"
  by (induction kvs) (auto split: if_splits)

lemma set_objectSet: "set (objectSet k v obj) \<subseteq> insert (k, v) (set obj)"
  using set_mapSet [of k v obj] by (auto simp: objectSet_def)

lemma set_objectEntries: "set (objectEntries obj) = set obj"
  by (auto simp: objectEntries_def)

lemma mentionedSources_entries_aux:
  assumes "\<forall>e \<in> set acc. snd e \<in> set docs0 \<and> fst e = doc_name (snd e)"
    and "set docs \<subseteq> set docs0"
  shows "\<forall>e \<in> set (foldl (\<lambda>sourceSet doc.
              if mentionedIn answerText doc then mapSet (doc_name doc) doc sourceSet
              else sourceSet) acc docs). snd e \<in> set docs0 \<and> fst e = doc_name (snd e)"
  using assms
proof (induction docs arbitrary: acc)
  case Nil
  then show ?case by simp
next
  case (Cons d docs)
  let ?acc' = "if mentionedIn answerText d then mapSet (doc_name d) d acc else acc"
  have d: "d \<in> set docs0" and sub: "set docs \<subseteq> set docs0"
    using Cons.prems(2) by simp_all
  have "\<forall>e \<in> set (mapSet (doc_name d) d acc). snd e \<in> set docs0 \<and> fst e = doc_name (snd e)"
    using set_mapSet [of "doc_name d" d acc] Cons.prems(1) d by fastforce
  with Cons.prems(1)
  have "\<forall>e \<in> set ?acc'. snd e \<in> set docs0 \<and> fst e = doc_name (snd e)"
    by simp
  from Cons.IH [OF this sub] show ?case by simp
qed

lemma mentionedSources_entries:
  "e \<in> set (mentionedSources answerText docs) \<Longrightarrow> snd e \<in> set docs \<and> fst e = doc_name (snd e)"
  using mentionedSources_entries_aux [of "[]" docs docs answerText]
  by (simp add: mentionedSources_def)

lemma scoreDocuments_entries:
  assumes "scoreDocuments rx ws acc docs = Inr scores"
    and "\<forall>e \<in> set acc. snd (snd e) \<in> set docs0 \<and> fst e = doc_name (snd (snd e))"
    and "set docs \<subseteq> set docs0"
  shows "\<forall>e \<in> set scores. snd (snd e) \<in> set docs0 \<and> fst e = doc_name (snd (snd e))"
  using assms
proof (induction docs arbitrary: acc)
  case Nil
  then show ?case by simp
next
  case (Cons d docs)
  have d: "d \<in> set docs0" and sub: "set docs \<subseteq> set docs0"
    using Cons.prems(3) by simp_all
  from Cons.prems(1) obtain score where
    r: "scoreDocuments rx ws
          (if score > 0 then objectSet (doc_name d) (score, d) acc else acc) docs = Inr scores"
    by (auto split: sum.splits)
  have "\<forall>e \<in> set (objectSet (doc_name d) (score, d) acc).
          snd (snd e) \<in> set docs0 \<and> fst e = doc_name (snd (snd e))"
    using set_objectSet [of "doc_name d" "(score, d)" acc] Cons.prems(2) d by fastforce
  with Cons.prems(2)
  have "\<forall>e \<in> set (if score > 0 then objectSet (doc_name d) (score, d) acc else acc).
          snd (snd e) \<in> set docs0 \<and> fst e = doc_name (snd (snd e))"
    by simp
  from Cons.IH [OF r this sub] show ?case .
qed

lemma keywordSources_entries_aux:
  assumes "\<forall>e \<in> set acc. snd e \<in> set docs0 \<and> fst e = doc_name (snd e)"
    and "\<forall>e \<in> set entries. snd (snd e) \<in> set docs0 \<and> fst e = doc_name (snd (snd e))"
  shows "\<forall>e \<in> set (foldl (\<lambda>sourceSet entry. mapSet (fst entry) (snd (snd entry)) sourceSet)
                        acc entries). snd e \<in> set docs0 \<and> fst e = doc_name (snd e)"
  using assms
proof (induction entries arbitrary: acc)
  case Nil
  then show ?case by simp
next
  case (Cons x entries)
  have x: "snd (snd x) \<in> set docs0 \<and> fst x = doc_name (snd (snd x))"
    and rest: "\<forall>e \<in> set entries. snd (snd e) \<in> set docs0 \<and> fst e = doc_name (snd (snd e))"
    using Cons.prems(2) by simp_all
  have "\<forall>e \<in> set (mapSet (fst x) (snd (snd x)) acc). snd e \<in> set docs0 \<and> fst e = doc_name (snd e)"
    using set_mapSet [of "fst x" "snd (snd x)" acc] Cons.prems(1) x by fastforce
  from Cons.IH [OF this rest] show ?case by simp
qed

lemma keywordSources_entries:
  assumes "keywordSources rx ws docs = Inr sourceSet" and "e \<in> set sourceSet"
  shows "snd e \<in> set docs \<and> fst e = doc_name (snd e)"
proof -
  from assms(1) obtain scores where sc: "scoreDocuments rx ws [] docs = Inr scores"
    and ss: "sourceSet = foldl (\<lambda>sourceSet entry. mapSet (fst entry) (snd (snd entry)) sourceSet)
                           [] (take 3 (sortBy compareScored (objectEntries scores)))"
    by (auto simp: keywordSources_def Let_def split: sum.splits)
  from scoreDocuments_entries [OF sc, of docs]
  have inv: "\<forall>e \<in> set scores. snd (snd e) \<in> set docs \<and> fst e = doc_name (snd (snd e))"
    by simp
  have "set (take 3 (sortBy compareScored (objectEntries scores))) \<subseteq> set scores"
    using set_take_subset [of 3 "sortBy compareScored (objectEntries scores)"]
    by (simp add: set_sortBy set_objectEntries)
  with inv have "\<forall>e \<in> set (take 3 (sortBy compareScored (objectEntries scores))).
                   snd (snd e) \<in> set docs \<and> fst e = doc_name (snd (snd e))"
    by blast
  from keywordSources_entries_aux [of "[]" docs, OF _ this] assms(2) ss show ?thesis
    by simp
qed

lemma relevantSentences_subset:
  "set (relevantSentences ws doc) \<subseteq> set (sentencesOf (doc_content doc))"
  by (auto simp: relevantSentences_def set_sortBy)

lemma excerpt250_sublist:
  "s \<in> set (sentencesOf content) \<Longrightarrow> sublist (substring0 (trim s) 250) content"
proof -
  assume "s \<in> set (sentencesOf content)"
  then have "sublist s content" by (rule sentencesOf_sublist)
  moreover have "sublist (substring0 (trim s) 250) s"
    unfolding substring0_def using trim_sublist [of s] sublist_take sublist_trans3 by blast
  ultimately show ?thesis using sublist_trans3 by blast
qed

lemma excerptsOf_origin:
  assumes "src \<in> set (excerptsOf ws sourceSet)"
  shows "\<exists>e \<in> set sourceSet. document src = fst e
           \<and> sublist (excerpt src) (doc_content (snd e)) \<and> length (excerpt src) \<le> 250"
proof -
  from assms obtain e where e: "e \<in> set sourceSet"
    and s: "src \<in> set (case relevantSentences ws (snd e) of
                          [] \<Rightarrow> []
                        | best # _ \<Rightarrow>
                            [\<lparr> document = fst e, excerpt = substring0 (trim best) 250 \<rparr>])"
    by (auto simp: excerptsOf_def)
  show ?thesis
  proof (cases "relevantSentences ws (snd e)")
    case Nil
    with s show ?thesis by simp
  next
    case (Cons best rest)
    with s have src: "src = \<lparr> document = fst e, excerpt = substring0 (trim best) 250 \<rparr>"
      by simp
    from Cons relevantSentences_subset [of ws "snd e"]
    have "best \<in> set (sentencesOf (doc_content (snd e)))" by auto
    from excerpt250_sublist [OF this] src e show ?thesis
      by (auto simp: substring0_def)
  qed
qed

lemma attributeSources_origin:
  assumes "attributeSources rx question docs answerText = Inr found" and "src \<in> set found"
  shows "\<exists>d \<in> set docs. document src = doc_name d
           \<and> sublist (excerpt src) (doc_content d) \<and> length (excerpt src) \<le> 250"
proof -
  from assms(1) obtain sourceSet where
    ss: "(if mentionedSources answerText docs = []
          then keywordSources rx (askQuestionWords question) docs
          else Inr (mentionedSources answerText docs)) = Inr sourceSet"
    and f: "found = excerptsOf (askQuestionWords question) sourceSet"
    by (auto simp: attributeSources_def Let_def split: sum.splits)
  have inv: "\<forall>e \<in> set sourceSet. snd e \<in> set docs \<and> fst e = doc_name (snd e)"
  proof (cases "mentionedSources answerText docs = []")
    case True
    with ss have "keywordSources rx (askQuestionWords question) docs = Inr sourceSet" by simp
    then show ?thesis using keywordSources_entries by blast
  next
    case False
    with ss have "sourceSet = mentionedSources answerText docs" by simp
    then show ?thesis using mentionedSources_entries by blast
  qed
  from assms(2) f excerptsOf_origin [of src "askQuestionWords question" sourceSet]
  obtain e where "e \<in> set sourceSet" "document src = fst e"
    "sublist (excerpt src) (doc_content (snd e))" "length (excerpt src) \<le> 250"
    by auto
  with inv show ?thesis by auto
qed

lemma askModel_origin:
  assumes "askModel rx completion question docs = Inr r" and "src \<in> set (sources r)"
  shows "\<exists>d \<in> set docs. document src = doc_name d
           \<and> sublist (excerpt src) (doc_content d) \<and> length (excerpt src) \<le> 250"
proof -
  from assms obtain answerText found where
    a: "attributeSources rx question docs answerText = Inr found" and "src \<in> set (take 3 found)"
    by (auto simp: askModel_def split: option.splits sum.splits)
  then have "src \<in> set found" using set_take_subset [of 3 found] by auto
  from attributeSources_origin [OF a this] show ?thesis .
qed

section \<open>The claim about excerpts\<close>

text \<open>
  Claim C4, as the code has it. On the server, every excerpt in the sources is a contiguous
  part of the content of the stored document that the entry names, of at most 300
  characters in a result of the keyword search and of at most 250 characters in an answer of
  the model path. On the client, the excerpt of every entry is the fixed text
  \<open>referenced\<close>, of 32 characters, and the entry names a stored document.
\<close>

theorem excerpts_come_from_documents:
  "(\<forall>src \<in> set (sources (getAnswerFromDocuments question docs)).
      \<exists>d \<in> set docs. document src = doc_name d \<and> sublist (excerpt src) (doc_content d)
                     \<and> length (excerpt src) \<le> 300)
   \<and> (\<forall>r. askModel rx completion question docs = Inr r \<longrightarrow>
         (\<forall>src \<in> set (sources r).
            \<exists>d \<in> set docs. document src = doc_name d \<and> sublist (excerpt src) (doc_content d)
                           \<and> length (excerpt src) \<le> 250))
   \<and> (\<forall>r. findAnswerInDocuments rx' query cdocs = Inr r \<longrightarrow>
         (\<forall>src \<in> set (sources r).
            excerpt src = referenced \<and> (\<exists>d \<in> set cdocs. document src = doc_name d)))
   \<and> length referenced = 32"
proof -
  have "length referenced = 32"
    by (simp add: referenced_def)
  with sources_getAnswer_origin [of _ question docs]
       askModel_origin [of rx completion question docs]
       sources_find_origin [of rx' query cdocs]
  show ?thesis by blast
qed

text \<open>
  Claim C4 as stated fails on the client: for a document with the content
  \<^verbatim>\<open>vacation one\<close> the excerpt in the sources is the fixed text, which is no part
  of the content of the document.
\<close>

theorem client_excerpt_is_no_substring:
  "findAnswerInDocuments noRegex ''vacation rules'' [memo ''a.txt'' ''vacation one'']
     = Inr \<lparr> answer = ''vacation one'',
             sources = [\<lparr> document = ''a.txt'', excerpt = ''Referenced in answer generation.'' \<rparr>] \<rparr>
   \<and> \<not> sublist ''Referenced in answer generation.'' ''vacation one''"
  by code_simp

theorem excerpts_come_from_documents_witness:
  "sources (getAnswerFromDocuments ''How many weeks notice for vacation'' [policy])
     = [\<lparr> document = ''policy.txt'',
          excerpt = ''Vacation requests must be submitted 2 weeks in advance'' \<rparr>]
   \<and> sublist ''Vacation requests must be submitted 2 weeks in advance'' (doc_content policy)
   \<and> askModel noRegex (modelSays ''Two weeks.'') ''How many weeks notice for vacation'' [policy]
       = Inr \<lparr> answer = ''Two weeks.'',
               sources = [\<lparr> document = ''policy.txt'',
                            excerpt = ''Vacation requests must be submitted 2 weeks in advance'' \<rparr>],
               question_echo = ''How many weeks notice for vacation'',
               confidence = 95 / 100, method_tag = ''openai'' \<rparr>
   \<and> findAnswerInDocuments noRegex ''vacation rules'' [memo ''a.txt'' ''vacation one'']
       = Inr \<lparr> answer = ''vacation one'',
               sources = [\<lparr> document = ''a.txt'', excerpt = referenced \<rparr>] \<rparr>"
proof -
  have s: "sources (getAnswerFromDocuments ''How many weeks notice for vacation'' [policy])
     = [\<lparr> document = ''policy.txt'',
          excerpt = ''Vacation requests must be submitted 2 weeks in advance'' \<rparr>]"
    by code_simp
  have m: "askModel noRegex (modelSays ''Two weeks.'') ''How many weeks notice for vacation'' [policy]
       = Inr \<lparr> answer = ''Two weeks.'',
               sources = [\<lparr> document = ''policy.txt'',
                            excerpt = ''Vacation requests must be submitted 2 weeks in advance'' \<rparr>],
               question_echo = ''How many weeks notice for vacation'',
               confidence = 95 / 100, method_tag = ''openai'' \<rparr>"
    by code_simp
  have c: "findAnswerInDocuments noRegex ''vacation rules'' [memo ''a.txt'' ''vacation one'']
       = Inr \<lparr> answer = ''vacation one'',
               sources = [\<lparr> document = ''a.txt'', excerpt = referenced \<rparr>] \<rparr>"
    by code_simp
  from excerpts_come_from_documents
         [of "''How many weeks notice for vacation''" "[policy]" noRegex "modelSays ''Two weeks.''"
             noRegex "''vacation rules''" "[memo ''a.txt'' ''vacation one'']"] s
  have "sublist ''Vacation requests must be submitted 2 weeks in advance'' (doc_content policy)"
    by simp
  with s m c show ?thesis by blast
qed

section \<open>The claim about the fallback of \<^verbatim>\<open>POST /api/ask\<close>\<close>

lemma askModel_upstream_failure:
  "completion (systemPrompt (documentContentOf docs)) question = None \<Longrightarrow>
     askModel rx completion question docs = Inl UpstreamModelError"
  by (simp add: askModel_def)

lemma askModel_tags:
  "askModel rx completion question docs = Inr r \<Longrightarrow>
     confidence r = 95 / 100 \<and> method_tag r = ''openai''"
  by (auto simp: askModel_def split: option.splits sum.splits)

lemma ask_with_client:
  assumes "question \<noteq> []" and "uploadedDocuments st \<noteq> []" and "openai st"
  shows "ask rx completion st (Some (JString question))
           = (case askModel rx completion question (uploadedDocuments st) of
                Inr result \<Rightarrow> Response 200 (AskBody result)
              | Inl e \<Rightarrow> Response 200 (AskBody (askFallback question (uploadedDocuments st))))"
  using assms by (simp add: ask_def)

lemma ask_without_client:
  assumes "question \<noteq> []" and "uploadedDocuments st \<noteq> []" and "\<not> openai st"
  shows "ask rx completion st (Some (JString question))
           = Response 500 (ErrorBody ''OpenAI API not initialized. Please check your API key.'')"
  using assms by (simp add: ask_def)

text \<open>
  A truthy question that is no string, with documents stored and the model client there:
  the exception leaves the handler, and no response is sent.
\<close>

lemma ask_question_no_string:
  assumes "\<not> falsy (Some v)" and "\<forall>q. v \<noteq> JString q"
    and "uploadedDocuments st \<noteq> []" and "openai st"
  shows "ask rx completion st (Some v) = Uncaught"
  using assms by (cases v) (simp_all add: ask_def)

text \<open>
  Claim C1, as the code has it. For a question that is a string and not empty and a store
  that is not empty: when the model client is there, a failing call of the model is an exception in the
  \<^verbatim>\<open>try\<close> block, and every exception in that block (the failing call, an unreadable
  reply, a keyword that is no regular expression) gives status 200 with the answer and the
  sources of the keyword search, the method \<^verbatim>\<open>fallback_search\<close> and the confidence
  0.7, below the 0.95 of an answer of the model, whose method is \<^verbatim>\<open>openai\<close>. When the
  model client is not there, the handler answers with status 500 and does not search.
\<close>

theorem ask_degrades_to_fallback:
  "question \<noteq> [] \<and> uploadedDocuments st \<noteq> [] \<longrightarrow>
     (openai st \<longrightarrow>
        (completion (systemPrompt (documentContentOf (uploadedDocuments st))) question = None
           \<longrightarrow> askModel rx completion question (uploadedDocuments st) = Inl UpstreamModelError)
        \<and> (\<forall>e. askModel rx completion question (uploadedDocuments st) = Inl e \<longrightarrow>
              ask rx completion st (Some (JString question))
                = Response 200 (AskBody
                    \<lparr> answer = answer (getAnswerFromDocuments question (uploadedDocuments st)),
                      sources = sources (getAnswerFromDocuments question (uploadedDocuments st)),
                      question_echo = question, confidence = 7 / 10,
                      method_tag = ''fallback_search'' \<rparr>))
        \<and> (\<forall>r. askModel rx completion question (uploadedDocuments st) = Inr r \<longrightarrow>
              ask rx completion st (Some (JString question)) = Response 200 (AskBody r)
              \<and> confidence r = 95 / 100 \<and> 7 / 10 < confidence r
              \<and> method_tag r = ''openai'' \<and> method_tag r \<noteq> ''fallback_search''))
     \<and> (\<not> openai st \<longrightarrow>
          ask rx completion st (Some (JString question))
            = Response 500 (ErrorBody ''OpenAI API not initialized. Please check your API key.''))"
proof (intro impI conjI allI)
  assume "question \<noteq> [] \<and> uploadedDocuments st \<noteq> []"
    and "completion (systemPrompt (documentContentOf (uploadedDocuments st))) question = None"
  then show "askModel rx completion question (uploadedDocuments st) = Inl UpstreamModelError"
    by (simp add: askModel_upstream_failure)
next
  fix e
  assume "question \<noteq> [] \<and> uploadedDocuments st \<noteq> []" and "openai st"
    and "askModel rx completion question (uploadedDocuments st) = Inl e"
  then show "ask rx completion st (Some (JString question))
                = Response 200 (AskBody
                    \<lparr> answer = answer (getAnswerFromDocuments question (uploadedDocuments st)),
                      sources = sources (getAnswerFromDocuments question (uploadedDocuments st)),
                      question_echo = question, confidence = 7 / 10,
                      method_tag = ''fallback_search'' \<rparr>)"
    by (simp add: ask_with_client askFallback_def Let_def)
next
  fix r
  assume q: "question \<noteq> [] \<and> uploadedDocuments st \<noteq> []" and o: "openai st"
    and m: "askModel rx completion question (uploadedDocuments st) = Inr r"
  from q o m show "ask rx completion st (Some (JString question)) = Response 200 (AskBody r)"
    by (simp add: ask_with_client)
  from askModel_tags [OF m] show "confidence r = 95 / 100" by simp
  from askModel_tags [OF m] show "7 / 10 < confidence r" by simp
  from askModel_tags [OF m] show "method_tag r = ''openai''" by simp
  from askModel_tags [OF m] show "method_tag r \<noteq> ''fallback_search''" by simp
next
  assume "question \<noteq> [] \<and> uploadedDocuments st \<noteq> []" and "\<not> openai st"
  then show "ask rx completion st (Some (JString question))
            = Response 500 (ErrorBody ''OpenAI API not initialized. Please check your API key.'')"
    by (simp add: ask_without_client)
qed

text \<open>
  Claim C1 as stated fails when the model client is unavailable: question and store are not
  empty, and the response is the error of status 500, not an answer of the fallback.
\<close>

theorem missing_client_is_an_error:
  "ask noRegex modelDown (serverWith False [handbook]) (Some (JString ''vacation rules''))
     = Response 500 (ErrorBody ''OpenAI API not initialized. Please check your API key.'')"
  by (simp add: ask_def serverWith_def)

theorem ask_degrades_to_fallback_witness:
  "ask noRegex modelDown (serverWith True [handbook]) (Some (JString ''vacation rules''))
     = Response 200 (AskBody
         \<lparr> answer = ''Vacation requests need two weeks notice'',
           sources = [\<lparr> document = ''handbook.txt'', excerpt = ''Vacation requests need two weeks notice'' \<rparr>,
                      \<lparr> document = ''handbook.txt'', excerpt = ''Vacation days expire in december'' \<rparr>,
                      \<lparr> document = ''handbook.txt'', excerpt = ''Is unused vacation paid out'' \<rparr>],
           question_echo = ''vacation rules'', confidence = 7 / 10,
           method_tag = ''fallback_search'' \<rparr>)
   \<and> ask noRegex (modelSays ''Two weeks.'') (serverWith True [handbook]) (Some (JString ''vacation rules''))
     = Response 200 (AskBody
         \<lparr> answer = ''Two weeks.'',
           sources = [\<lparr> document = ''handbook.txt'', excerpt = ''Vacation requests need two weeks notice'' \<rparr>],
           question_echo = ''vacation rules'', confidence = 95 / 100,
           method_tag = ''openai'' \<rparr>)
   \<and> ask noRegex modelDown (serverWith False [handbook]) (Some (JString ''vacation rules''))
     = Response 500 (ErrorBody ''OpenAI API not initialized. Please check your API key.'')"
proof -
  have g: "getAnswerFromDocuments ''vacation rules'' [handbook]
     = \<lparr> answer = ''Vacation requests need two weeks notice'',
         sources = [\<lparr> document = ''handbook.txt'', excerpt = ''Vacation requests need two weeks notice'' \<rparr>,
                    \<lparr> document = ''handbook.txt'', excerpt = ''Vacation days expire in december'' \<rparr>,
                    \<lparr> document = ''handbook.txt'', excerpt = ''Is unused vacation paid out'' \<rparr>],
         primaryDocument = Some ''handbook.txt'' \<rparr>"
    by code_simp
  have m: "askModel noRegex (modelSays ''Two weeks.'') ''vacation rules'' [handbook]
     = Inr \<lparr> answer = ''Two weeks.'',
           sources = [\<lparr> document = ''handbook.txt'', excerpt = ''Vacation requests need two weeks notice'' \<rparr>],
           question_echo = ''vacation rules'', confidence = 95 / 100,
           method_tag = ''openai'' \<rparr>"
    by code_simp
  have d: "askModel noRegex modelDown ''vacation rules'' [handbook] = Inl UpstreamModelError"
    by (simp add: askModel_def modelDown_def)
  have 1: "ask noRegex modelDown (serverWith True [handbook]) (Some (JString ''vacation rules''))
     = Response 200 (AskBody
         \<lparr> answer = ''Vacation requests need two weeks notice'',
           sources = [\<lparr> document = ''handbook.txt'', excerpt = ''Vacation requests need two weeks notice'' \<rparr>,
                      \<lparr> document = ''handbook.txt'', excerpt = ''Vacation days expire in december'' \<rparr>,
                      \<lparr> document = ''handbook.txt'', excerpt = ''Is unused vacation paid out'' \<rparr>],
           question_echo = ''vacation rules'', confidence = 7 / 10,
           method_tag = ''fallback_search'' \<rparr>)"
    using ask_degrades_to_fallback
            [of "''vacation rules''" "serverWith True [handbook]" modelDown noRegex] d
    by (simp add: serverWith_def g)
  have 2: "ask noRegex (modelSays ''Two weeks.'') (serverWith True [handbook]) (Some (JString ''vacation rules''))
     = Response 200 (AskBody
         \<lparr> answer = ''Two weeks.'',
           sources = [\<lparr> document = ''handbook.txt'', excerpt = ''Vacation requests need two weeks notice'' \<rparr>],
           question_echo = ''vacation rules'', confidence = 95 / 100,
           method_tag = ''openai'' \<rparr>)"
    using ask_degrades_to_fallback
            [of "''vacation rules''" "serverWith True [handbook]" "modelSays ''Two weeks.''" noRegex] m
    by (simp add: serverWith_def)
  have 3: "ask noRegex modelDown (serverWith False [handbook]) (Some (JString ''vacation rules''))
     = Response 500 (ErrorBody ''OpenAI API not initialized. Please check your API key.'')"
    using ask_degrades_to_fallback
            [of "''vacation rules''" "serverWith False [handbook]" modelDown noRegex]
    by (simp add: serverWith_def)
  from 1 2 3 show ?thesis by blast
qed

section \<open>The claim about questions without keywords\<close>

text \<open>
  Claim C3, as the code has it. On the client, a query that the filter leaves no keyword of
  gets the fixed answer that asks for a more specific question, with no sources, whatever the
  documents. The server has no such check: with no keyword left a sentence scores 10 when it
  contains the first 15 characters of the lower-cased question and 0 otherwise, and when no
  sentence of a document does, the result is the answer that nothing was found, with no
  sources.
\<close>

theorem no_keywords_left:
  "(keywordsOf query = [] \<longrightarrow>
      findAnswerInDocuments rx query cdocs = Inr \<lparr> answer = askMoreSpecifically, sources = [] \<rparr>)
   \<and> (questionWords question = [] \<longrightarrow>
        (\<forall>s. scoreSentence question s
               = (if includesStr (toLowerCase s) (questionPhrase question) then 10 else 0, 0))
        \<and> ((\<forall>d \<in> set docs. \<forall>s \<in> set (sentencesOf (doc_content d)).
                \<not> includesStr (toLowerCase s) (questionPhrase question)) \<longrightarrow>
             getAnswerFromDocuments question docs
               = \<lparr> answer = notFoundOnServer, sources = [], primaryDocument = None \<rparr>))"
proof (intro conjI impI allI)
  assume "keywordsOf query = []"
  then show "findAnswerInDocuments rx query cdocs
               = Inr \<lparr> answer = askMoreSpecifically, sources = [] \<rparr>"
    by (simp add: findAnswerInDocuments_def)
next
  fix s
  assume "questionWords question = []"
  then show "scoreSentence question s
               = (if includesStr (toLowerCase s) (questionPhrase question) then 10 else 0, 0)"
    by (rule scoreSentence_no_words)
next
  assume w: "questionWords question = []"
    and n: "\<forall>d \<in> set docs. \<forall>s \<in> set (sentencesOf (doc_content d)).
              \<not> includesStr (toLowerCase s) (questionPhrase question)"
  have "\<forall>d \<in> set docs. \<forall>s \<in> set (sentencesOf (doc_content d)). fst (scoreSentence question s) = 0"
    using n by (simp add: scoreSentence_no_words [OF w])
  then show "getAnswerFromDocuments question docs
               = \<lparr> answer = notFoundOnServer, sources = [], primaryDocument = None \<rparr>"
    by (rule getAnswer_no_matches)
qed

text \<open>
  Claim C3 as stated fails on the server: the filter discards both tokens of the question
  \<^verbatim>\<open>is it\<close>, and the result is a sentence of the document with one source, not the
  fixed answer with none.
\<close>

theorem server_answers_without_keywords:
  "questionWords ''is it'' = []
   \<and> getAnswerFromDocuments ''is it'' [isItNote]
       = \<lparr> answer = ''What is it that we are doing here'',
           sources = [\<lparr> document = ''a.txt'', excerpt = ''What is it that we are doing here'' \<rparr>],
           primaryDocument = Some ''a.txt'' \<rparr>"
  by code_simp

theorem no_keywords_left_witness:
  "keywordsOf ''What is this?'' = []
   \<and> findAnswerInDocuments noRegex ''What is this?'' fourNotes
       = Inr \<lparr> answer = ''Please ask a more specific question with keywords found in your documents.'',
               sources = [] \<rparr>
   \<and> questionWords ''is it'' = []
   \<and> getAnswerFromDocuments ''is it'' [policy]
       = \<lparr> answer = ''I couldn't find specific information about your question in the uploaded documents.'',
           sources = [], primaryDocument = None \<rparr>"
proof -
  have k: "keywordsOf ''What is this?'' = []"
    by code_simp
  have w: "questionWords ''is it'' = []"
    by code_simp
  have n: "\<forall>d \<in> set [policy]. \<forall>s \<in> set (sentencesOf (doc_content d)).
             \<not> includesStr (toLowerCase s) (questionPhrase ''is it'')"
    by code_simp
  from k w n no_keywords_left [of "''What is this?''" noRegex fourNotes "''is it''" "[policy]"]
  show ?thesis
    by (simp add: askMoreSpecifically_def notFoundOnServer_def)
qed

section \<open>The claim about the ranking\<close>

lemma matchesOfDocument_filter:
  "matchesOfDocument question doc
     = filter (\<lambda>m. 0 < m_score m)
         (map (\<lambda>sentence. matchOf doc sentence (scoreSentence question sentence))
              (sentencesOf (doc_content doc)))"
proof -
  have "concat (map (\<lambda>sentence. let sc = scoreSentence question sentence
                                 in if fst sc > 0 then [matchOf doc sentence sc] else []) ss)
          = filter (\<lambda>m. 0 < m_score m)
              (map (\<lambda>sentence. matchOf doc sentence (scoreSentence question sentence)) ss)" for ss
    by (induction ss) (simp_all add: Let_def matchOf_def)
  then show ?thesis by (simp add: matchesOfDocument_def)
qed

lemma collectMatches_filter:
  "collectMatches question docs = filter (\<lambda>m. 0 < m_score m) (candidateMatches question docs)"
  by (induction docs)
     (simp_all add: collectMatches_def candidateMatches_def matchesOfDocument_filter)

lemma count_words_foldl:
  "foldl (\<lambda>(score, matchCount) word.
            if includesStr sl word then (score + 3, matchCount + 1) else (score, matchCount))
         (a, b) ws
     = (a + 3 * length (filter (includesStr sl) ws), b + length (filter (includesStr sl) ws))"
  by (induction ws arbitrary: a b) simp_all

lemma scoreSentence_matchCount:
  "snd (scoreSentence question s) = keywordHits (questionWords question) s"
  by (simp add: scoreSentence_def keywordHits_def count_words_foldl Let_def)

lemma scanChunks_filter:
  "scanChunks rx kws name acc chs = Inr rel \<Longrightarrow>
     rel = acc @ filter (\<lambda>c. 0 < c_score c) (map (chunkOf rx kws name) chs)"
proof (induction chs arbitrary: acc)
  case Nil
  then show ?case by simp
next
  case (Cons ch chs)
  from Cons.prems obtain score where
    sc: "scoreChunk rx (toLowerCase ch) 0 kws = Inr score"
    and r: "scanChunks rx kws name
          (if score > 0 then acc @ [\<lparr> c_text = trim ch, c_score = score, c_source = name \<rparr>] else acc)
          chs = Inr rel"
    by (auto split: sum.splits)
  from sc have ck: "chunkOf rx kws name ch = \<lparr> c_text = trim ch, c_score = score, c_source = name \<rparr>"
    by (simp add: chunkOf_def chunkScore_def)
  from Cons.IH [OF r] ck show ?case by simp
qed

lemma scanDocs_filter:
  "scanDocs rx kws acc docs = Inr rel \<Longrightarrow>
     rel = acc @ filter (\<lambda>c. 0 < c_score c) (candidateChunks rx kws docs)"
proof (induction docs arbitrary: acc)
  case Nil
  then show ?case by (simp add: candidateChunks_def)
next
  case (Cons d docs)
  from Cons.prems obtain mid where
    m: "scanChunks rx kws (doc_name d) acc (splitParagraphs [] (doc_content d)) = Inr mid"
    and r: "scanDocs rx kws mid docs = Inr rel"
    by (auto split: sum.splits)
  from scanChunks_filter [OF m] Cons.IH [OF r] show ?case
    by (simp add: candidateChunks_def)
qed

lemma rankedChunks_sort:
  "rankedChunks rx query docs = Inr ranked \<Longrightarrow>
     ranked = sortBy compareChunks
                (filter (\<lambda>c. 0 < c_score c) (candidateChunks rx (keywordsOf query) docs))"
proof -
  assume "rankedChunks rx query docs = Inr ranked"
  then obtain rel where rel: "scanDocs rx (keywordsOf query) [] docs = Inr rel"
    and ranked: "ranked = sortBy compareChunks rel"
    by (auto simp: rankedChunks_def split: sum.splits)
  from scanDocs_filter [OF rel] ranked show ?thesis by simp
qed

text \<open>
  Claim C7, as the code has it. The server keeps exactly the sentences whose score is
  positive, and ranks them by score, higher first, then by match count, higher first, with
  the sentences that agree on both in the order they were found; the match count of a
  sentence is the number of keywords it contains. The client keeps exactly the
  chunks whose score is positive and ranks them by score only, higher first, with the chunks
  of equal score in the order they were found, whatever the number of keywords they match.
\<close>

theorem ranking_is_stable_descending:
  "collectMatches question docs = filter (\<lambda>m. 0 < m_score m) (candidateMatches question docs)
   \<and> mset (rankedMatches question docs) = mset (collectMatches question docs)
   \<and> sorted_wrt (\<lambda>a b. m_score b < m_score a
                        \<or> (m_score b = m_score a \<and> m_matchCount b \<le> m_matchCount a))
        (rankedMatches question docs)
   \<and> (\<forall>s n. filter (\<lambda>m. m_score m = s \<and> m_matchCount m = n) (rankedMatches question docs)
            = filter (\<lambda>m. m_score m = s \<and> m_matchCount m = n) (collectMatches question docs))
   \<and> (\<forall>sentence. snd (scoreSentence question sentence)
                     = keywordHits (questionWords question) sentence)
   \<and> (\<forall>ranked. rankedChunks rx query cdocs = Inr ranked \<longrightarrow>
         mset ranked
           = mset (filter (\<lambda>c. 0 < c_score c) (candidateChunks rx (keywordsOf query) cdocs))
         \<and> sorted_wrt (\<lambda>a b. c_score b \<le> c_score a) ranked
         \<and> (\<forall>s. filter (\<lambda>c. c_score c = s) ranked
                  = filter (\<lambda>c. c_score c = s)
                      (filter (\<lambda>c. 0 < c_score c) (candidateChunks rx (keywordsOf query) cdocs))))"
proof (intro conjI allI impI)
  show "collectMatches question docs = filter (\<lambda>m. 0 < m_score m) (candidateMatches question docs)"
    by (rule collectMatches_filter)
  show "mset (rankedMatches question docs) = mset (collectMatches question docs)"
    by (simp add: rankedMatches_def mset_sortBy)
  show "sorted_wrt (\<lambda>a b. m_score b < m_score a
                        \<or> (m_score b = m_score a \<and> m_matchCount b \<le> m_matchCount a))
        (rankedMatches question docs)"
    unfolding rankedMatches_def by (rule sortBy_matches_sorted)
  show "filter (\<lambda>m. m_score m = s \<and> m_matchCount m = n) (rankedMatches question docs)
            = filter (\<lambda>m. m_score m = s \<and> m_matchCount m = n) (collectMatches question docs)" for s n
    unfolding rankedMatches_def by (rule sortBy_matches_stable)
  show "snd (scoreSentence question sentence)
          = keywordHits (questionWords question) sentence" for sentence
    by (rule scoreSentence_matchCount)
next
  fix ranked
  assume "rankedChunks rx query cdocs = Inr ranked"
  then have r: "ranked = sortBy compareChunks
                (filter (\<lambda>c. 0 < c_score c) (candidateChunks rx (keywordsOf query) cdocs))"
    by (rule rankedChunks_sort)
  show "mset ranked
           = mset (filter (\<lambda>c. 0 < c_score c) (candidateChunks rx (keywordsOf query) cdocs))"
    unfolding r by (rule mset_sortBy)
  show "sorted_wrt (\<lambda>a b. c_score b \<le> c_score a) ranked"
    unfolding r by (rule sortBy_chunks_sorted)
  show "filter (\<lambda>c. c_score c = s) ranked
                  = filter (\<lambda>c. c_score c = s)
                      (filter (\<lambda>c. 0 < c_score c) (candidateChunks rx (keywordsOf query) cdocs))" for s
    unfolding r by (rule sortBy_chunks_stable)
qed

text \<open>
  Claim C7 as stated fails on the client: the two chunks have the same score, the second one
  contains two of the keywords and the first only one, and the first stays first.
\<close>

theorem client_ignores_match_count:
  "rankedChunks noRegex ''alpha beta''
       [memo ''one.txt'' ''alpha alpha alpha'', memo ''two.txt'' ''alpha beta'']
     = Inr [\<lparr> c_text = ''alpha alpha alpha'', c_score = 4, c_source = ''one.txt'' \<rparr>,
            \<lparr> c_text = ''alpha beta'', c_score = 4, c_source = ''two.txt'' \<rparr>]
   \<and> keywordHits (keywordsOf ''alpha beta'') ''alpha alpha alpha'' = 1
   \<and> keywordHits (keywordsOf ''alpha beta'') ''alpha beta'' = 2"
  by code_simp

theorem ranking_is_stable_descending_witness:
  "rankedMatches ''vacation rules approval'' [handbook]
     = [\<lparr> m_document = ''handbook.txt'', m_excerpt = ''Every vacation needs approval'',
          m_score = 10, m_matchCount = 2 \<rparr>,
        \<lparr> m_document = ''handbook.txt'', m_excerpt = ''Vacation requests need two weeks notice'',
          m_score = 5, m_matchCount = 1 \<rparr>,
        \<lparr> m_document = ''handbook.txt'', m_excerpt = ''Vacation days expire in december'',
          m_score = 5, m_matchCount = 1 \<rparr>,
        \<lparr> m_document = ''handbook.txt'', m_excerpt = ''Is unused vacation paid out'',
          m_score = 5, m_matchCount = 1 \<rparr>]
   \<and> rankedChunks noRegex ''alpha beta'' threeNotes
     = Inr [\<lparr> c_text = ''alpha beta'', c_score = 4, c_source = ''two.txt'' \<rparr>,
            \<lparr> c_text = ''alpha'', c_score = 2, c_source = ''one.txt'' \<rparr>,
            \<lparr> c_text = ''beta'', c_score = 2, c_source = ''three.txt'' \<rparr>]
   \<and> filter (\<lambda>c. c_score c = 2)
         (filter (\<lambda>c. 0 < c_score c) (candidateChunks noRegex (keywordsOf ''alpha beta'') threeNotes))
     = [\<lparr> c_text = ''alpha'', c_score = 2, c_source = ''one.txt'' \<rparr>,
        \<lparr> c_text = ''beta'', c_score = 2, c_source = ''three.txt'' \<rparr>]"
proof -
  have m: "rankedMatches ''vacation rules approval'' [handbook]
     = [\<lparr> m_document = ''handbook.txt'', m_excerpt = ''Every vacation needs approval'',
          m_score = 10, m_matchCount = 2 \<rparr>,
        \<lparr> m_document = ''handbook.txt'', m_excerpt = ''Vacation requests need two weeks notice'',
          m_score = 5, m_matchCount = 1 \<rparr>,
        \<lparr> m_document = ''handbook.txt'', m_excerpt = ''Vacation days expire in december'',
          m_score = 5, m_matchCount = 1 \<rparr>,
        \<lparr> m_document = ''handbook.txt'', m_excerpt = ''Is unused vacation paid out'',
          m_score = 5, m_matchCount = 1 \<rparr>]"
    by code_simp
  have c: "rankedChunks noRegex ''alpha beta'' threeNotes
     = Inr [\<lparr> c_text = ''alpha beta'', c_score = 4, c_source = ''two.txt'' \<rparr>,
            \<lparr> c_text = ''alpha'', c_score = 2, c_source = ''one.txt'' \<rparr>,
            \<lparr> c_text = ''beta'', c_score = 2, c_source = ''three.txt'' \<rparr>]"
    by code_simp
  from ranking_is_stable_descending
         [of "''vacation rules approval''" "[handbook]" noRegex "''alpha beta''" threeNotes] c
  have "filter (\<lambda>c. c_score c = 2)
          [\<lparr> c_text = ''alpha beta'', c_score = 4, c_source = ''two.txt'' \<rparr>,
           \<lparr> c_text = ''alpha'', c_score = 2, c_source = ''one.txt'' \<rparr>,
           \<lparr> c_text = ''beta'', c_score = 2, c_source = ''three.txt'' \<rparr>]
        = filter (\<lambda>c. c_score c = 2)
            (filter (\<lambda>c. 0 < c_score c)
               (candidateChunks noRegex (keywordsOf ''alpha beta'') threeNotes))"
    by blast
  then have "filter (\<lambda>c. c_score c = 2)
            (filter (\<lambda>c. 0 < c_score c)
               (candidateChunks noRegex (keywordsOf ''alpha beta'') threeNotes))
      = [\<lparr> c_text = ''alpha'', c_score = 2, c_source = ''one.txt'' \<rparr>,
         \<lparr> c_text = ''beta'', c_score = 2, c_source = ''three.txt'' \<rparr>]"
    by simp
  with m c show ?thesis by blast
qed

section \<open>The claim about determinism\<close>

lemma matchesOfDocument_sameText:
  "sameText a b \<Longrightarrow> matchesOfDocument question a = matchesOfDocument question b"
proof -
  assume same: "sameText a b"
  then have m: "matchOf a = matchOf b"
    by (simp add: fun_eq_iff sameText_def matchOf_def)
  from same have c: "doc_content a = doc_content b"
    by (simp add: sameText_def)
  show ?thesis
    unfolding matchesOfDocument_def m c by (rule refl)
qed

lemma collectMatches_sameText:
  "list_all2 sameText docs docs' \<Longrightarrow> collectMatches question docs = collectMatches question docs'"
proof (induction docs docs' rule: list_all2_induct)
  case Nil
  show ?case by (simp add: collectMatches_def)
next
  case (Cons a docs b docs')
  from matchesOfDocument_sameText [OF Cons.hyps(1)] Cons.IH show ?case
    by (simp add: collectMatches_def)
qed

lemma scanDocs_sameText:
  "list_all2 sameText docs docs' \<Longrightarrow> scanDocs rx kws acc docs = scanDocs rx kws acc docs'"
proof (induction docs docs' arbitrary: acc rule: list_all2_induct)
  case Nil
  show ?case by simp
next
  case (Cons a docs b docs')
  from Cons.hyps(1) have "doc_name a = doc_name b" and "doc_content a = doc_content b"
    by (simp_all add: sameText_def)
  with Cons.IH show ?case
    by (simp split: sum.splits)
qed

lemma getAnswer_sameText:
  "list_all2 sameText docs docs' \<Longrightarrow>
     getAnswerFromDocuments question docs = getAnswerFromDocuments question docs'"
  by (simp add: getAnswerFromDocuments_def rankedMatches_def collectMatches_sameText [of docs docs'])

lemma findAnswer_sameText:
  "list_all2 sameText docs docs' \<Longrightarrow>
     findAnswerInDocuments rx query docs = findAnswerInDocuments rx query docs'"
  by (simp add: findAnswerInDocuments_def rankedChunks_def scanDocs_sameText [of docs docs'])

lemma ask_fallback_same:
  assumes "uploadedDocuments st = uploadedDocuments st'" and "openai st" and "openai st'"
    and "askModel rx completion question (uploadedDocuments st) = Inl e"
    and "askModel rx' completion' question (uploadedDocuments st') = Inl e'"
  shows "ask rx completion st (Some (JString question)) = ask rx' completion' st' (Some (JString question))"
  using assms by (simp add: ask_def)

text \<open>
  Claim C8: the keyword search is a function of the question and of the names and contents
  of the documents. Two runs on document lists that agree on names and contents give the
  same result, on the server and on the client, whatever the ids, sizes and dates; and two
  requests to \<^verbatim>\<open>POST /api/ask\<close> that both fall back, on servers that hold the same
  documents, send the same response, whatever made the model path fail.
\<close>

theorem search_is_deterministic:
  "(list_all2 sameText docs docs' \<longrightarrow>
      getAnswerFromDocuments question docs = getAnswerFromDocuments question docs'
      \<and> findAnswerInDocuments rx question docs = findAnswerInDocuments rx question docs')
   \<and> (uploadedDocuments st = uploadedDocuments st' \<and> openai st \<and> openai st'
        \<and> askModel rx1 completion1 question (uploadedDocuments st) = Inl e1
        \<and> askModel rx2 completion2 question (uploadedDocuments st') = Inl e2 \<longrightarrow>
        ask rx1 completion1 st (Some (JString question)) = ask rx2 completion2 st' (Some (JString question)))"
  using getAnswer_sameText [of docs docs' question]
        findAnswer_sameText [of docs docs' rx question]
        ask_fallback_same [of st st' rx1 completion1 question e1 rx2 completion2 e2]
  by blast

theorem search_is_deterministic_witness:
  "getAnswerFromDocuments ''Vacation notice (weeks'' [policy]
     = getAnswerFromDocuments ''Vacation notice (weeks'' [policyNote]
   \<and> findAnswerInDocuments noRegex ''Vacation notice (weeks'' [policy]
     = findAnswerInDocuments noRegex ''Vacation notice (weeks'' [policyNote]
   \<and> ask noRegex modelDown (serverWith True [policy]) (Some (JString ''Vacation notice (weeks''))
     = ask noRegex (modelSays ''Two weeks.'')
         ((serverWith True [policy]) \<lparr> disk := [] \<rparr>) (Some (JString ''Vacation notice (weeks''))"
proof -
  have same: "list_all2 sameText [policy] [policyNote]"
    by (simp add: sameText_def policy_def policyNote_def stored_def)
  have d: "askModel noRegex modelDown ''Vacation notice (weeks''
             (uploadedDocuments (serverWith True [policy])) = Inl UpstreamModelError"
    by (simp add: askModel_def modelDown_def)
  have s: "askModel noRegex (modelSays ''Two weeks.'') ''Vacation notice (weeks''
             (uploadedDocuments ((serverWith True [policy]) \<lparr> disk := [] \<rparr>)) = Inl SyntaxError"
    by code_simp
  have o: "uploadedDocuments (serverWith True [policy])
             = uploadedDocuments ((serverWith True [policy]) \<lparr> disk := [] \<rparr>)"
     "openai (serverWith True [policy])" "openai ((serverWith True [policy]) \<lparr> disk := [] \<rparr>)"
    by (simp_all add: serverWith_def)
  from same d s o
    search_is_deterministic
      [of "[policy]" "[policyNote]" "''Vacation notice (weeks''" noRegex
          "serverWith True [policy]" "(serverWith True [policy]) \<lparr> disk := [] \<rparr>"
          noRegex modelDown UpstreamModelError noRegex "modelSays ''Two weeks.''" SyntaxError]
  show ?thesis by blast
qed

section \<open>The claim about the keywords\<close>

















end
